theory Spec2Isabelle
  imports Main "HOL-Library.AList" "HOL-Library.Sublist"
begin

section \<open>JavaScript values and strings\<close>

text \<open>
  A document is the value \<open>JSON.parse\<close> returns.  Numbers are never inspected by the
  scripts, so their representation is a type parameter.  An object is the list of its own
  properties in the order \<open>Object.entries\<close> enumerates them: array-index keys in ascending
  numeric order first, then all other keys in the order of their creation.
\<close>

datatype 'n json =
    JNull
  | JBool bool
  | JNum 'n
  | JStr string
  | JArr "'n json list"
  | JObj "(string \<times> 'n json) list"

text \<open>\<open>String.prototype.endsWith\<close> and the prefix test used by the search below.\<close>

definition endsWith :: "string \<Rightarrow> string \<Rightarrow> bool" where
  "endsWith s suf = (length suf \<le> length s \<and> drop (length s - length suf) s = suf)"

definition startsWith :: "string \<Rightarrow> string \<Rightarrow> bool" where
  "startsWith s pat = (take (length pat) s = pat)"

text \<open>\<open>String.prototype.indexOf\<close>: the position of the first occurrence, if there is one.\<close>

fun indexOf :: "string \<Rightarrow> string \<Rightarrow> nat option" where
  "indexOf [] pat = (if pat = [] then Some 0 else None)"
| "indexOf (c # cs) pat =
     (if startsWith (c # cs) pat then Some 0 else map_option Suc (indexOf cs pat))"

text \<open>
  \<open>String.prototype.replace\<close> with a string pattern: only the first occurrence of the
  pattern is replaced; a string without the pattern is returned as it is.  The replacement
  text \<open>.ogg\<close> contains no \<open>$\<close>, so it is inserted literally.
\<close>

definition replace :: "string \<Rightarrow> string \<Rightarrow> string \<Rightarrow> string" where
  "replace s pat rep =
     (case indexOf s pat of
        None \<Rightarrow> s
      | Some i \<Rightarrow> take i s @ rep @ drop (i + length pat) s)"

subsection \<open>Own properties of an ordinary object\<close>

text \<open>
  A key is an array index when it is the canonical decimal form of an integer below
  \<open>2^32 - 1\<close>.  Such keys are enumerated first, in ascending order.
\<close>

definition isDigit :: "char \<Rightarrow> bool" where
  "isDigit c = (48 \<le> (of_char c :: int) \<and> (of_char c :: int) \<le> 57)"

definition decimal :: "string \<Rightarrow> int" where
  "decimal k = foldl (\<lambda>n c. 10 * n + ((of_char c :: int) - 48)) 0 k"

definition isArrayIndex :: "string \<Rightarrow> bool" where
  "isArrayIndex k =
     (k \<noteq> [] \<and> list_all isDigit k \<and> (length k = 1 \<or> hd k \<noteq> CHR ''0'')
      \<and> decimal k < 4294967295)"

fun insertIndex :: "string \<Rightarrow> 'v \<Rightarrow> (string \<times> 'v) list \<Rightarrow> (string \<times> 'v) list" where
  "insertIndex k v [] = [(k, v)]"
| "insertIndex k v ((k', v') # ps) =
     (if isArrayIndex k' \<and> decimal k' < decimal k
      then (k', v') # insertIndex k v ps
      else (k, v) # (k', v') # ps)"

text \<open>
  Creating or overwriting an own data property: an existing key keeps its place, a new
  array index is put in numeric position, any other new key goes to the end.
\<close>

definition defineOwn :: "(string \<times> 'v) list \<Rightarrow> string \<Rightarrow> 'v \<Rightarrow> (string \<times> 'v) list" where
  "defineOwn ps k v =
     (if k \<in> fst ` set ps then AList.update k v ps
      else if isArrayIndex k then insertIndex k v ps
      else ps @ [(k, v)])"

text \<open>
  The statement \<open>result.data[key] = value\<close> on the object literal \<open>{}\<close>.  The key
  \<open>__proto__\<close> is the one key an object literal inherits a setter for: assigning to it
  changes the prototype (or does nothing for a primitive value) and creates no own property.
  The prototype is not visible to \<open>Object.entries\<close> or \<open>JSON.stringify\<close>, so it is not
  part of the value.
\<close>

fun setProperty :: "'n json \<Rightarrow> string \<Rightarrow> 'n json \<Rightarrow> 'n json" where
  "setProperty (JObj ps) key v =
     (if key = ''__proto__'' then JObj ps else JObj (defineOwn ps key v))"
| "setProperty d key v = d"

section \<open>The reference rewriter of update-audio-references.js\<close>

record 'n result =
  data :: "'n json"
  hasChanges :: bool
  changeCount :: nat

text \<open>\<open>result.hasChanges = true; result.changeCount++\<close>\<close>

definition bump :: "'n result \<Rightarrow> 'n result" where
  "bump result = result\<lparr>hasChanges := True, changeCount := changeCount result + 1\<rparr>"

text \<open>\<open>if (nested.hasChanges) { result.hasChanges = true; result.changeCount += nested.changeCount }\<close>\<close>

definition absorb :: "'n result \<Rightarrow> 'n result \<Rightarrow> 'n result" where
  "absorb result nested =
     (if hasChanges nested
      then result\<lparr>hasChanges := True, changeCount := changeCount result + changeCount nested\<rparr>
      else result)"

text \<open>\<open>result.data[key] = v\<close>\<close>

definition store :: "'n result \<Rightarrow> string \<Rightarrow> 'n json \<Rightarrow> 'n result" where
  "store result key v = result\<lparr>data := setProperty (data result) key v\<rparr>"

text \<open>
  \<open>updateObjectReferences\<close>, with the callback of \<open>obj.map\<close> threaded over the items
  (\<open>mapItems\<close>) and the loop over \<open>Object.entries(obj)\<close> (\<open>forEntries\<close>); both carry the
  record \<open>result\<close> that the source mutates.  The equations keep the order of the source's
  tests: matching string, then nested container, then anything else.  The depth of the
  recursion is not bounded here; the call stack of the interpreter is.
\<close>

fun updateObjectReferences :: "'n json \<Rightarrow> 'n result"
  and mapItems :: "'n json list \<Rightarrow> 'n result \<Rightarrow> 'n json list \<times> 'n result"
  and forEntries :: "(string \<times> 'n json) list \<Rightarrow> 'n result \<Rightarrow> 'n result"
where
  "updateObjectReferences (JArr items) =
     (case mapItems items \<lparr>data = JObj [], hasChanges = False, changeCount = 0\<rparr> of
        (mapped, result) \<Rightarrow> result\<lparr>data := JArr mapped\<rparr>)"
| "updateObjectReferences (JObj entries) =
     forEntries entries \<lparr>data = JObj [], hasChanges = False, changeCount = 0\<rparr>"
| "updateObjectReferences obj = \<lparr>data = obj, hasChanges = False, changeCount = 0\<rparr>"
| "mapItems [] result = ([], result)"
| "mapItems (JStr s # items) result =
     (if endsWith s ''.mp3''
      then (case mapItems items (bump result) of
              (mapped, result') \<Rightarrow> (JStr (replace s ''.mp3'' ''.ogg'') # mapped, result'))
      else (case mapItems items result of
              (mapped, result') \<Rightarrow> (JStr s # mapped, result')))"
| "mapItems (JArr xs # items) result =
     (let nested = updateObjectReferences (JArr xs) in
      case mapItems items (absorb result nested) of
        (mapped, result') \<Rightarrow> (data nested # mapped, result'))"
| "mapItems (JObj es # items) result =
     (let nested = updateObjectReferences (JObj es) in
      case mapItems items (absorb result nested) of
        (mapped, result') \<Rightarrow> (data nested # mapped, result'))"
| "mapItems (item # items) result =
     (case mapItems items result of (mapped, result') \<Rightarrow> (item # mapped, result'))"
| "forEntries [] result = result"
| "forEntries ((key, JStr s) # entries) result =
     (if endsWith s ''.mp3''
      then forEntries entries (bump (store result key (JStr (replace s ''.mp3'' ''.ogg''))))
      else forEntries entries (store result key (JStr s)))"
| "forEntries ((key, JArr xs) # entries) result =
     (let nested = updateObjectReferences (JArr xs) in
      forEntries entries (absorb (store result key (data nested)) nested))"
| "forEntries ((key, JObj es) # entries) result =
     (let nested = updateObjectReferences (JObj es) in
      forEntries entries (absorb (store result key (data nested)) nested))"
| "forEntries ((key, v) # entries) result = forEntries entries (store result key v)"

subsection \<open>What the rewriter is compared with\<close>

text \<open>
  The value the callback of \<open>obj.map\<close> returns for an item, which is also the value the
  loop over the entries assigns for a property value: a matching string is replaced, a nested
  array or object is rewritten recursively, anything else is kept.
\<close>

fun converted :: "'n json \<Rightarrow> 'n json" where
  "converted (JStr s) =
     (if endsWith s ''.mp3'' then JStr (replace s ''.mp3'' ''.ogg'') else JStr s)"
| "converted (JArr xs) = data (updateObjectReferences (JArr xs))"
| "converted (JObj es) = data (updateObjectReferences (JObj es))"
| "converted v = v"

text \<open>
  The number of reference values of a document: the strings ending in \<open>.mp3\<close> that are
  an element of an array or the value of a property, at any depth.  A string that is the
  whole document is not counted.
\<close>

fun countRefs :: "'n json \<Rightarrow> nat"
  and countItems :: "'n json list \<Rightarrow> nat"
  and countEntries :: "(string \<times> 'n json) list \<Rightarrow> nat"
where
  "countRefs (JArr items) = countItems items"
| "countRefs (JObj entries) = countEntries entries"
| "countRefs v = 0"
| "countItems [] = 0"
| "countItems (JStr s # items) = (if endsWith s ''.mp3'' then 1 else 0) + countItems items"
| "countItems (v # items) = countRefs v + countItems items"
| "countEntries [] = 0"
| "countEntries ((key, JStr s) # entries) =
     (if endsWith s ''.mp3'' then 1 else 0) + countEntries entries"
| "countEntries ((key, v) # entries) = countRefs v + countEntries entries"

text \<open>
  The number of string leaves replaced in a returned tree, read off the input and the
  returned tree: the places of the returned tree (an index of an array, a key of an object,
  at any depth) that hold a string where the input holds a different string at the same
  place.  A place the input does not have, or that holds another kind of value on either
  side, counts for nothing.
\<close>

fun replacedLeaves :: "'n json \<Rightarrow> 'n json \<Rightarrow> nat"
  and replacedItems :: "'n json list \<Rightarrow> 'n json list \<Rightarrow> nat"
  and replacedEntries :: "(string \<times> 'n json) list \<Rightarrow> (string \<times> 'n json) list \<Rightarrow> nat"
where
  "replacedLeaves (JStr s) (JStr t) = (if s = t then 0 else 1)"
| "replacedLeaves (JArr xs) (JArr ys) = replacedItems xs ys"
| "replacedLeaves (JObj es) (JObj fs) = replacedEntries es fs"
| "replacedLeaves v w = 0"
| "replacedItems (x # xs) (y # ys) = replacedLeaves x y + replacedItems xs ys"
| "replacedItems xs ys = 0"
| "replacedEntries es [] = 0"
| "replacedEntries es ((k, w) # fs) =
     (case map_of es k of None \<Rightarrow> 0 | Some v \<Rightarrow> replacedLeaves v w) + replacedEntries es fs"

text \<open>
  The rewrite as the specification words it: every string ending in the suffix becomes the
  same string minus the suffix plus \<open>.ogg\<close>; every other value, and the keys and their
  order, stay as they are.
\<close>

fun rewriteSpec :: "'n json \<Rightarrow> 'n json" where
  "rewriteSpec (JStr s) =
     (if endsWith s ''.mp3'' then JStr (take (length s - 4) s @ ''.ogg'') else JStr s)"
| "rewriteSpec (JArr xs) = JArr (map rewriteSpec xs)"
| "rewriteSpec (JObj es) = JObj (map (\<lambda>(k, v). (k, rewriteSpec v)) es)"
| "rewriteSpec v = v"

text \<open>
  The same traversal with the string operation the source calls,
  \<open>value.replace('.mp3', '.ogg')\<close>.
\<close>

fun rewriteCode :: "'n json \<Rightarrow> 'n json" where
  "rewriteCode (JStr s) =
     (if endsWith s ''.mp3'' then JStr (replace s ''.mp3'' ''.ogg'') else JStr s)"
| "rewriteCode (JArr xs) = JArr (map rewriteCode xs)"
| "rewriteCode (JObj es) = JObj (map (\<lambda>(k, v). (k, rewriteCode v)) es)"
| "rewriteCode v = v"

text \<open>A property of a value and of every value nested in it.\<close>

fun allNodes :: "('n json \<Rightarrow> bool) \<Rightarrow> 'n json \<Rightarrow> bool" where
  "allNodes P (JArr xs) = (P (JArr xs) \<and> list_all (allNodes P) xs)"
| "allNodes P (JObj es) = (P (JObj es) \<and> list_all (\<lambda>(k, v). allNodes P v) es)"
| "allNodes P v = P v"

text \<open>
  The order in which the own keys of an object are enumerated: an array index is preceded
  only by smaller array indices.
\<close>

fun keyOrdered :: "string list \<Rightarrow> bool" where
  "keyOrdered (k # k' # ks) =
     ((isArrayIndex k' \<longrightarrow> isArrayIndex k \<and> decimal k < decimal k') \<and> keyOrdered (k' # ks))"
| "keyOrdered ks = True"

definition okKeys :: "'n json \<Rightarrow> bool" where
  "okKeys v =
     (case v of JObj es \<Rightarrow> distinct (map fst es) \<and> keyOrdered (map fst es) | _ \<Rightarrow> True)"

definition noProtoKey :: "'n json \<Rightarrow> bool" where
  "noProtoKey v = (case v of JObj es \<Rightarrow> ''__proto__'' \<notin> set (map fst es) | _ \<Rightarrow> True)"

definition suffixIsFirst :: "'n json \<Rightarrow> bool" where
  "suffixIsFirst v =
     (case v of
        JStr s \<Rightarrow> endsWith s ''.mp3'' \<longrightarrow> indexOf s ''.mp3'' = Some (length s - 4)
      | _ \<Rightarrow> True)"

text \<open>
  \<open>parsed\<close>: a value \<open>JSON.parse\<close> can return (the keys of every object are distinct and
  in enumeration order).  \<open>protoFree\<close>: no object has a key \<open>__proto__\<close>.  \<open>suffixOnly\<close>:
  in every string that ends in \<open>.mp3\<close>, that ending is the first occurrence of \<open>.mp3\<close>.
\<close>

definition parsed :: "'n json \<Rightarrow> bool" where
  "parsed d = allNodes okKeys d"

definition protoFree :: "'n json \<Rightarrow> bool" where
  "protoFree d = allNodes noProtoKey d"

definition suffixOnly :: "'n json \<Rightarrow> bool" where
  "suffixOnly d = allNodes suffixIsFirst d"

definition isContainer :: "'n json \<Rightarrow> bool" where
  "isContainer v = (case v of JArr _ \<Rightarrow> True | JObj _ \<Rightarrow> True | _ \<Rightarrow> False)"

section \<open>The file system the scripts work on\<close>

text \<open>
  A tree of directories and regular files; a path is the list of its components, so that
  \<open>path.join(dir, name)\<close> is \<open>dir @ [name]\<close>.  A directory lists its entries in the order
  \<open>readdirSync\<close> returns them.  Permissions, links and timestamps are not modelled, and a
  failing call only says which call failed on which path, not the error code.
\<close>

datatype node = File string | Dir "(string \<times> node) list"

type_synonym path = "string list"

datatype err =
    FsError string path
  | SyntaxError string
  | FFmpegFailed int string
  | FFmpegStart string

fun lookup :: "node \<Rightarrow> path \<Rightarrow> node option" where
  "lookup n [] = Some n"
| "lookup (File c) (x # p) = None"
| "lookup (Dir es) (x # p) = (case map_of es x of None \<Rightarrow> None | Some child \<Rightarrow> lookup child p)"

text \<open>Putting a node at a path whose parent directory exists; removing the entry at a path.\<close>

fun putEntry :: "node \<Rightarrow> path \<Rightarrow> node \<Rightarrow> node option" where
  "putEntry n [] new = Some new"
| "putEntry (File c) (x # p) new = None"
| "putEntry (Dir es) [x] new = Some (Dir (AList.update x new es))"
| "putEntry (Dir es) (x # y # p) new =
     (case map_of es x of
        None \<Rightarrow> None
      | Some child \<Rightarrow>
          (case putEntry child (y # p) new of
             None \<Rightarrow> None
           | Some child' \<Rightarrow> Some (Dir (AList.update x child' es))))"

fun dropEntry :: "node \<Rightarrow> path \<Rightarrow> node option" where
  "dropEntry n [] = None"
| "dropEntry (File c) (x # p) = None"
| "dropEntry (Dir es) [x] = Some (Dir (AList.delete x es))"
| "dropEntry (Dir es) (x # y # p) =
     (case map_of es x of
        None \<Rightarrow> None
      | Some child \<Rightarrow>
          (case dropEntry child (y # p) of
             None \<Rightarrow> None
           | Some child' \<Rightarrow> Some (Dir (AList.update x child' es))))"

text \<open>
  \<open>mkdir\<close> with \<open>recursive: true\<close>: every missing directory on the path is created; the
  call fails when a component is a regular file.
\<close>

fun mkdirp :: "node \<Rightarrow> path \<Rightarrow> node option" where
  "mkdirp (File c) p = None"
| "mkdirp (Dir es) [] = Some (Dir es)"
| "mkdirp (Dir es) (x # p) =
     (case mkdirp (case map_of es x of None \<Rightarrow> Dir [] | Some child \<Rightarrow> child) p of
        None \<Rightarrow> None
      | Some child' \<Rightarrow> Some (Dir (AList.update x child' es)))"

text \<open>The calls of the \<open>fs\<close> module the scripts make; \<open>Inl\<close> is the exception thrown.\<close>

definition existsSync :: "node \<Rightarrow> path \<Rightarrow> bool" where
  "existsSync fs p = (lookup fs p \<noteq> None)"

definition statSync :: "node \<Rightarrow> path \<Rightarrow> err + node" where
  "statSync fs p = (case lookup fs p of None \<Rightarrow> Inl (FsError ''stat'' p) | Some n \<Rightarrow> Inr n)"

fun isDirectory :: "node \<Rightarrow> bool" where
  "isDirectory (Dir es) = True"
| "isDirectory (File c) = False"

text \<open>\<open>stats.size\<close>; what a directory reports depends on the file system and is taken as 0.\<close>

fun fileSize :: "node \<Rightarrow> nat" where
  "fileSize (File c) = length c"
| "fileSize (Dir es) = 0"

definition readFileSync :: "node \<Rightarrow> path \<Rightarrow> err + string" where
  "readFileSync fs p =
     (case lookup fs p of Some (File c) \<Rightarrow> Inr c | _ \<Rightarrow> Inl (FsError ''open'' p))"

definition readdirSync :: "node \<Rightarrow> path \<Rightarrow> err + string list" where
  "readdirSync fs p =
     (case lookup fs p of Some (Dir es) \<Rightarrow> Inr (map fst es) | _ \<Rightarrow> Inl (FsError ''scandir'' p))"

definition writeFileSync :: "node \<Rightarrow> path \<Rightarrow> string \<Rightarrow> err + node" where
  "writeFileSync fs p c =
     (case lookup fs p of
        Some (Dir es) \<Rightarrow> Inl (FsError ''open'' p)
      | _ \<Rightarrow> (case putEntry fs p (File c) of
                None \<Rightarrow> Inl (FsError ''open'' p)
              | Some fs' \<Rightarrow> Inr fs'))"

definition unlinkSync :: "node \<Rightarrow> path \<Rightarrow> err + node" where
  "unlinkSync fs p =
     (case lookup fs p of
        Some (File c) \<Rightarrow> (case dropEntry fs p of
                            None \<Rightarrow> Inl (FsError ''unlink'' p)
                          | Some fs' \<Rightarrow> Inr fs')
      | _ \<Rightarrow> Inl (FsError ''unlink'' p))"

definition copyFileSync :: "node \<Rightarrow> path \<Rightarrow> path \<Rightarrow> err + node" where
  "copyFileSync fs src dest =
     (case lookup fs src of
        Some (File c) \<Rightarrow>
          (case writeFileSync fs dest c of
             Inl e \<Rightarrow> Inl (FsError ''copyfile'' dest)
           | Inr fs' \<Rightarrow> Inr fs')
      | _ \<Rightarrow> Inl (FsError ''copyfile'' src))"

definition mkdirSync :: "node \<Rightarrow> path \<Rightarrow> err + node" where
  "mkdirSync fs p = (case mkdirp fs p of None \<Rightarrow> Inl (FsError ''mkdir'' p) | Some fs' \<Rightarrow> Inr fs')"

section \<open>What the scripts share\<close>

text \<open>
  How a step of a script ends: its promise resolves, its promise is rejected with an
  exception, an exception is thrown inside an event listener (nothing catches it and the
  process dies), or \<open>process.exit\<close> is called.
\<close>

datatype completion = Done | Threw err | Uncaught err | Exit nat

text \<open>
  The directory of the constructors, relative to \<open>content\<close>, the directory
  \<open>../PNLD/content\<close> next to the scripts.
\<close>

definition baseDir :: "path \<Rightarrow> path" where
  "baseDir content = content @ [''i18n'']"

text \<open>\<open>readdirSync(dir).filter(d => statSync(join(dir, d)).isDirectory())\<close>\<close>

fun directoriesOf :: "node \<Rightarrow> path \<Rightarrow> string list \<Rightarrow> err + string list" where
  "directoriesOf fs dir [] = Inr []"
| "directoriesOf fs dir (name # names) =
     (case statSync fs (dir @ [name]) of
        Inl e \<Rightarrow> Inl e
      | Inr stats \<Rightarrow>
          (case directoriesOf fs dir names of
             Inl e \<Rightarrow> Inl e
           | Inr dirs \<Rightarrow> Inr (if isDirectory stats then name # dirs else dirs)))"

definition languagesOf :: "node \<Rightarrow> path \<Rightarrow> err + string list" where
  "languagesOf fs dir =
     (case readdirSync fs dir of Inl e \<Rightarrow> Inl e | Inr names \<Rightarrow> directoriesOf fs dir names)"

section \<open>update-audio-references.js\<close>

text \<open>
  The state of a run: the file system, the two counters of \<open>this.stats\<close>, and the warnings
  written with \<open>console.warn\<close> (the other console output has no effect and is left out).
\<close>

datatype line = Warning path err

record updater =
  disk :: node
  jsonFilesUpdated :: nat
  audioReferencesUpdated :: nat
  console :: "line list"

definition warn :: "updater \<Rightarrow> path \<Rightarrow> err \<Rightarrow> updater" where
  "warn u filePath e = u\<lparr>console := console u @ [Warning filePath e]\<rparr>"

text \<open>
  \<open>findJsonFiles\<close> with its inner function \<open>traverse\<close> and the loop over the items of a
  directory; the paths are collected in the order they are pushed.  The file system is only
  read, so every call goes into a smaller subtree and the traversal ends.
\<close>

function traverse :: "node \<Rightarrow> path \<Rightarrow> err + path list"
  and traverseItems :: "node \<Rightarrow> path \<Rightarrow> string list \<Rightarrow> err + path list"
where
  "traverse fs currentDir =
     (case readdirSync fs currentDir of
        Inl e \<Rightarrow> Inl e
      | Inr items \<Rightarrow> traverseItems fs currentDir items)"
| "traverseItems fs currentDir [] = Inr []"
| "traverseItems fs currentDir (item # items) =
     (case statSync fs (currentDir @ [item]) of
        Inl e \<Rightarrow> Inl e
      | Inr stats \<Rightarrow>
          (case (if isDirectory stats then traverse fs (currentDir @ [item])
                 else if endsWith item ''.json'' then Inr [currentDir @ [item]]
                 else Inr []) of
             Inl e \<Rightarrow> Inl e
           | Inr found \<Rightarrow>
               (case traverseItems fs currentDir items of
                  Inl e \<Rightarrow> Inl e
                | Inr others \<Rightarrow> Inr (found @ others))))"
  by pat_completeness auto
termination
proof (relation "measures [\<lambda>x. case x of
        Inl (fs, dir) \<Rightarrow> (case lookup fs dir of None \<Rightarrow> 0 | Some t \<Rightarrow> size t)
      | Inr (fs, dir, items) \<Rightarrow> (case lookup fs dir of None \<Rightarrow> 0 | Some t \<Rightarrow> size t),
      \<lambda>x. case x of Inl (fs, dir) \<Rightarrow> 1 | Inr (fs, dir, items) \<Rightarrow> 0,
      \<lambda>x. case x of Inl (fs, dir) \<Rightarrow> 0 | Inr (fs, dir, items) \<Rightarrow> length items]",
    goal_cases)
  case 1
  then show ?case by simp
next
  case (2 fs currentDir items)
  then show ?case by simp
next
  case (3 fs currentDir item items stats)
  have entry: "size child < size (Dir es)" if "map_of es name = Some child"
    for es :: "(string \<times> node) list" and name child
    using that by (induction es) (auto split: if_splits)
  have below: "size child < (case lookup root dir of None \<Rightarrow> 0 | Some t \<Rightarrow> size t)"
    if "lookup root (dir @ [name]) = Some child" for root dir name child
    using that
  proof (induction dir arbitrary: root)
    case Nil
    then obtain es where "root = Dir es" "map_of es name = Some child"
      by (cases root) (auto split: option.splits)
    with entry [of es name child] show ?case by simp
  next
    case (Cons d dir)
    then obtain es sub where "root = Dir es" "map_of es d = Some sub"
      "lookup sub (dir @ [name]) = Some child"
      by (cases root) (auto split: option.splits)
    with Cons.IH [of sub] show ?case by simp
  qed
  from 3 have found: "lookup fs (currentDir @ [item]) = Some stats"
    by (auto simp: statSync_def split: option.splits)
  from below [OF found] show ?case by (simp add: found)
next
  case (4 fs currentDir item items stats found)
  then show ?case by simp
qed


text \<open>
  \<open>updateJsonFile\<close>.  \<open>JSON.parse\<close> and \<open>JSON.stringify\<close> belong to the language's library
  and are parameters: \<open>parse\<close> returns the message of the SyntaxError or the value.  Every
  exception raised inside the \<open>try\<close> block ends in the \<open>catch\<close> branch.
\<close>

definition updateJsonFile ::
  "(string \<Rightarrow> string + 'n json) \<Rightarrow> ('n json \<Rightarrow> string) \<Rightarrow> updater \<Rightarrow> path \<Rightarrow> updater \<times> bool"
where
  "updateJsonFile parse stringify u filePath =
     (case readFileSync (disk u) filePath of
        Inl e \<Rightarrow> (warn u filePath e, False)
      | Inr content \<Rightarrow>
          (case parse content of
             Inl msg \<Rightarrow> (warn u filePath (SyntaxError msg), False)
           | Inr parsedData \<Rightarrow>
               (let updatedData = updateObjectReferences parsedData in
                if hasChanges updatedData
                then (case writeFileSync (disk u) filePath (stringify (data updatedData)) of
                        Inl e \<Rightarrow> (warn u filePath e, False)
                      | Inr fs' \<Rightarrow>
                          (u\<lparr>disk := fs',
                             audioReferencesUpdated :=
                               audioReferencesUpdated u + changeCount updatedData\<rparr>,
                           True))
                else (u, False))))"





section \<open>The backup step of the compression scripts\<close>

text \<open>
  What can be observed at a path: a regular file with its content, or a directory.
\<close>

datatype entry = IsFile string | IsDir

fun kind :: "node \<Rightarrow> entry" where
  "kind (File c) = IsFile c"
| "kind (Dir es) = IsDir"

definition entryAt :: "node \<Rightarrow> path \<Rightarrow> entry option" where
  "entryAt fs p = map_option kind (lookup fs p)"

text \<open>No directory lists a name twice.\<close>

fun wellFormed :: "node \<Rightarrow> bool" where
  "wellFormed (File c) = True"
| "wellFormed (Dir es) = (distinct (map fst es) \<and> list_all (\<lambda>(k, child). wellFormed child) es)"

text \<open>
  \<open>copyDirectory(src, dest)\<close> with its loop over \<open>readdirSync(src)\<close>.  The result is the
  file system after the call and the exception thrown, if any.  The recursion follows the
  directories found under \<open>src\<close> while the call itself writes; it does not end when \<open>dest\<close>
  lies inside \<open>src\<close>, so the function takes the number of nested calls it may make and
  returns \<open>None\<close> when that number is used up.
\<close>

function copyDirectory :: "nat \<Rightarrow> node \<Rightarrow> path \<Rightarrow> path \<Rightarrow> (node \<times> err option) option"
  and copyItems :: "nat \<Rightarrow> node \<Rightarrow> path \<Rightarrow> path \<Rightarrow> string list \<Rightarrow> (node \<times> err option) option"
where
  "copyDirectory 0 fs src dest = None"
| "copyDirectory (Suc n) fs src dest =
     (case (if \<not> existsSync fs dest then mkdirSync fs dest else Inr fs) of
        Inl e \<Rightarrow> Some (fs, Some e)
      | Inr fs1 \<Rightarrow>
          (case readdirSync fs1 src of
             Inl e \<Rightarrow> Some (fs1, Some e)
           | Inr items \<Rightarrow> copyItems n fs1 src dest items))"
| "copyItems n fs src dest [] = Some (fs, None)"
| "copyItems n fs src dest (item # items) =
     (case statSync fs (src @ [item]) of
        Inl e \<Rightarrow> Some (fs, Some e)
      | Inr stats \<Rightarrow>
          if isDirectory stats
          then (case copyDirectory n fs (src @ [item]) (dest @ [item]) of
                  None \<Rightarrow> None
                | Some (fs', Some e) \<Rightarrow> Some (fs', Some e)
                | Some (fs', None) \<Rightarrow> copyItems n fs' src dest items)
          else (case copyFileSync fs (src @ [item]) (dest @ [item]) of
                  Inl e \<Rightarrow> Some (fs, Some e)
                | Inr fs' \<Rightarrow> copyItems n fs' src dest items))"
  by pat_completeness auto
termination
  by (relation "measures [\<lambda>x. case x of
        Inl (n, fs, src, dest) \<Rightarrow> 2 * n
      | Inr (n, fs, src, dest, items) \<Rightarrow> 2 * n + 1, \<lambda>x. case x of
        Inl (n, fs, src, dest) \<Rightarrow> 0
      | Inr (n, fs, src, dest, items) \<Rightarrow> length items]") auto

text \<open>
  \<open>createBackup\<close>, the same in both scripts; \<open>base\<close> and \<open>backup\<close> are \<open>this.baseDir\<close> and
  \<open>this.backupDir\<close>.
\<close>

definition createBackup :: "nat \<Rightarrow> node \<Rightarrow> path \<Rightarrow> path \<Rightarrow> (node \<times> err option) option" where
  "createBackup n fs base backup =
     (if existsSync fs backup then Some (fs, None) else copyDirectory n fs base backup)"

text \<open>
  Three relations between the file system before and after, used to state what a copy does.
  \<open>grafted\<close>: nothing changed but \<open>dest\<close> and what is below it.  \<open>copied\<close>: in addition,
  below \<open>dest\<close> there is exactly what was below \<open>src\<close>.  \<open>partly\<close>: the same for the entries
  of \<open>src\<close> named in \<open>seen\<close>, and nothing else below \<open>dest\<close>.
\<close>

definition grafted :: "node \<Rightarrow> node \<Rightarrow> path \<Rightarrow> bool" where
  "grafted fs fs' dest =
     ((\<forall>p. p \<parallel> dest \<longrightarrow> lookup fs' p = lookup fs p)
      \<and> (\<forall>p. strict_prefix p dest \<longrightarrow> entryAt fs' p = entryAt fs p))"

definition copied :: "node \<Rightarrow> node \<Rightarrow> path \<Rightarrow> path \<Rightarrow> bool" where
  "copied fs fs' src dest =
     ((\<forall>q. entryAt fs' (dest @ q) = entryAt fs (src @ q)) \<and> grafted fs fs' dest)"

definition partly :: "node \<Rightarrow> node \<Rightarrow> path \<Rightarrow> path \<Rightarrow> string set \<Rightarrow> bool" where
  "partly fs fs' src dest seen =
     (grafted fs fs' dest \<and> entryAt fs' dest = Some IsDir
      \<and> (\<forall>x q. entryAt fs' (dest @ x # q) = (if x \<in> seen then entryAt fs (src @ x # q) else None)))"

section \<open>compress-audio.js and compress-audio-mp3.js\<close>

text \<open>
  How a spawned \<open>ffmpeg\<close> ends: the \<open>close\<close> event with the exit code and what was read
  from its error stream, or the \<open>error\<close> event when it could not be started.  (A process
  ended by a signal has no exit code and takes the same branch as a non-zero code.)  The encoder
  is outside the scripts: it is a parameter that, from the file system and the input and
  output paths, gives the file system it leaves and how it ended.
\<close>

datatype spawned = Closed int string | SpawnError string

type_synonym encoder = "node \<Rightarrow> path \<Rightarrow> path \<Rightarrow> node \<times> spawned"

text \<open>\<open>this.stats\<close> and the file system; console output is left out.\<close>

record compressor =
  files :: node
  totalFiles :: nat
  processedFiles :: nat
  originalSize :: nat
  compressedSize :: nat
  errors :: "(string \<times> err) list"

text \<open>The backup directories of the two constructors.\<close>

definition backupDir :: "path \<Rightarrow> path" where
  "backupDir content = content @ [''i18n-backup'']"

definition backupDir_mp3 :: "path \<Rightarrow> path" where
  "backupDir_mp3 content = content @ [''i18n-backup-mp3'']"

text \<open>\<open>checkFFmpeg\<close>, from how the spawned \<open>ffmpeg -version\<close> ended.\<close>

definition checkFFmpeg :: "spawned \<Rightarrow> bool" where
  "checkFFmpeg probe = (case probe of Closed code out \<Rightarrow> code = 0 | SpawnError msg \<Rightarrow> False)"


text \<open>
  \<open>analyzeCurrentFiles\<close> on the directory it reads (\<open>baseDir\<close> in compress-audio.js,
  \<open>backupDir\<close> in compress-audio-mp3.js).  The call of \<open>getTotalSize\<close> only feeds a log
  line and reads what was just read, so it is left out.
\<close>

fun countFiles :: "compressor \<Rightarrow> path \<Rightarrow> string list \<Rightarrow> compressor \<times> completion" where
  "countFiles c audioDir [] = (c, Done)"
| "countFiles c audioDir (file # rest) =
     (case statSync (files c) (audioDir @ [file]) of
        Inl e \<Rightarrow> (c, Threw e)
      | Inr stats \<Rightarrow>
          countFiles (c\<lparr>totalFiles := totalFiles c + 1,
                        originalSize := originalSize c + fileSize stats\<rparr>) audioDir rest)"

fun analyzeLanguages :: "compressor \<Rightarrow> path \<Rightarrow> string list \<Rightarrow> compressor \<times> completion" where
  "analyzeLanguages c dir [] = (c, Done)"
| "analyzeLanguages c dir (lang # langs) =
     (let audioDir = dir @ [lang, ''audio''] in
      if existsSync (files c) audioDir
      then (case readdirSync (files c) audioDir of
              Inl e \<Rightarrow> (c, Threw e)
            | Inr names \<Rightarrow>
                (case countFiles c audioDir (filter (\<lambda>file. endsWith file ''.mp3'') names) of
                   (c', Done) \<Rightarrow> analyzeLanguages c' dir langs
                 | (c', r) \<Rightarrow> (c', r)))
      else analyzeLanguages c dir langs)"

definition analyzeCurrentFiles :: "compressor \<Rightarrow> path \<Rightarrow> compressor \<times> completion" where
  "analyzeCurrentFiles c dir =
     (case languagesOf (files c) dir of
        Inl e \<Rightarrow> (c, Threw e)
      | Inr languages \<Rightarrow> analyzeLanguages c dir languages)"

text \<open>
  \<open>compressFile\<close> of compress-audio.js.  An exception of \<open>statSync(inputPath)\<close> rejects the
  promise; one thrown in the \<open>close\<close> listener is caught by nothing.
\<close>

definition compressFile :: "encoder \<Rightarrow> compressor \<Rightarrow> path \<Rightarrow> string \<Rightarrow> compressor \<times> completion" where
  "compressFile enc c audioDir filename =
     (let inputPath = audioDir @ [filename];
          outputPath = audioDir @ [replace filename ''.mp3'' ''.ogg'']
      in case statSync (files c) inputPath of
           Inl e \<Rightarrow> (c, Threw e)
         | Inr original \<Rightarrow>
             (case enc (files c) inputPath outputPath of
                (fs1, SpawnError msg) \<Rightarrow> (c\<lparr>files := fs1\<rparr>, Threw (FFmpegStart msg))
              | (fs1, Closed code errorOutput) \<Rightarrow>
                  if code = 0
                  then (case statSync fs1 outputPath of
                          Inl e \<Rightarrow> (c\<lparr>files := fs1\<rparr>, Uncaught e)
                        | Inr compressed \<Rightarrow>
                            (case unlinkSync fs1 inputPath of
                               Inl e \<Rightarrow>
                                 (c\<lparr>files := fs1,
                                    compressedSize := compressedSize c + fileSize compressed\<rparr>,
                                  Uncaught e)
                             | Inr fs2 \<Rightarrow>
                                 (c\<lparr>files := fs2,
                                    compressedSize := compressedSize c + fileSize compressed\<rparr>,
                                  Done)))
                  else (c\<lparr>files := fs1\<rparr>, Threw (FFmpegFailed code errorOutput))))"

text \<open>The loop of \<open>compressLanguageFiles\<close> with its \<open>try\<close> and \<open>catch\<close>.\<close>

fun compressEach :: "encoder \<Rightarrow> compressor \<Rightarrow> path \<Rightarrow> string list \<Rightarrow> compressor \<times> completion" where
  "compressEach enc c audioDir [] = (c, Done)"
| "compressEach enc c audioDir (file # rest) =
     (case compressFile enc c audioDir file of
        (c', Done) \<Rightarrow> compressEach enc (c'\<lparr>processedFiles := processedFiles c' + 1\<rparr>) audioDir rest
      | (c', Threw e) \<Rightarrow> compressEach enc (c'\<lparr>errors := errors c' @ [(file, e)]\<rparr>) audioDir rest
      | (c', r) \<Rightarrow> (c', r))"

definition compressLanguageFiles ::
  "encoder \<Rightarrow> compressor \<Rightarrow> path \<Rightarrow> string \<Rightarrow> compressor \<times> completion" where
  "compressLanguageFiles enc c content language =
     (let audioDir = baseDir content @ [language, ''audio''] in
      if \<not> existsSync (files c) audioDir then (c, Done)
      else case readdirSync (files c) audioDir of
             Inl e \<Rightarrow> (c, Threw e)
           | Inr names \<Rightarrow> compressEach enc c audioDir (filter (\<lambda>file. endsWith file ''.mp3'') names))"

text \<open>\<open>compressAllFiles\<close>: the backup first, then every language; and \<open>init\<close>.\<close>

fun compressLanguages ::
  "encoder \<Rightarrow> compressor \<Rightarrow> path \<Rightarrow> string list \<Rightarrow> compressor \<times> completion" where
  "compressLanguages enc c content [] = (c, Done)"
| "compressLanguages enc c content (lang # langs) =
     (case compressLanguageFiles enc c content lang of
        (c', Done) \<Rightarrow> compressLanguages enc c' content langs
      | (c', r) \<Rightarrow> (c', r))"

definition compressAllFiles ::
  "nat \<Rightarrow> encoder \<Rightarrow> compressor \<Rightarrow> path \<Rightarrow> (compressor \<times> completion) option" where
  "compressAllFiles n enc c content =
     (case createBackup n (files c) (baseDir content) (backupDir content) of
        None \<Rightarrow> None
      | Some (fs1, Some e) \<Rightarrow> Some (c\<lparr>files := fs1\<rparr>, Threw e)
      | Some (fs1, None) \<Rightarrow>
          (case languagesOf fs1 (baseDir content) of
             Inl e \<Rightarrow> Some (c\<lparr>files := fs1\<rparr>, Threw e)
           | Inr languages \<Rightarrow> Some (compressLanguages enc (c\<lparr>files := fs1\<rparr>) content languages)))"


text \<open>
  The same functions of compress-audio-mp3.js, which reads from the backup and writes into
  \<open>baseDir\<close>, and removes the output file when the encoder fails.
\<close>

definition compressFile_mp3 ::
  "encoder \<Rightarrow> compressor \<Rightarrow> path \<Rightarrow> path \<Rightarrow> string \<Rightarrow> compressor \<times> completion" where
  "compressFile_mp3 enc c sourceAudioDir targetAudioDir filename =
     (let inputPath = sourceAudioDir @ [filename];
          outputPath = targetAudioDir @ [filename]
      in case statSync (files c) inputPath of
           Inl e \<Rightarrow> (c, Threw e)
         | Inr original \<Rightarrow>
             (case enc (files c) inputPath outputPath of
                (fs1, SpawnError msg) \<Rightarrow>
                  (if existsSync fs1 outputPath
                   then (case unlinkSync fs1 outputPath of
                           Inl e \<Rightarrow> (c\<lparr>files := fs1\<rparr>, Uncaught e)
                         | Inr fs2 \<Rightarrow> (c\<lparr>files := fs2\<rparr>, Threw (FFmpegStart msg)))
                   else (c\<lparr>files := fs1\<rparr>, Threw (FFmpegStart msg)))
              | (fs1, Closed code errorOutput) \<Rightarrow>
                  if code = 0
                  then (case statSync fs1 outputPath of
                          Inl e \<Rightarrow> (c\<lparr>files := fs1\<rparr>, Uncaught e)
                        | Inr compressed \<Rightarrow>
                            (c\<lparr>files := fs1,
                               compressedSize := compressedSize c + fileSize compressed\<rparr>,
                             Done))
                  else (if existsSync fs1 outputPath
                        then (case unlinkSync fs1 outputPath of
                                Inl e \<Rightarrow> (c\<lparr>files := fs1\<rparr>, Uncaught e)
                              | Inr fs2 \<Rightarrow>
                                  (c\<lparr>files := fs2\<rparr>, Threw (FFmpegFailed code errorOutput)))
                        else (c\<lparr>files := fs1\<rparr>, Threw (FFmpegFailed code errorOutput)))))"

fun compressEach_mp3 ::
  "encoder \<Rightarrow> compressor \<Rightarrow> path \<Rightarrow> path \<Rightarrow> string list \<Rightarrow> compressor \<times> completion" where
  "compressEach_mp3 enc c sourceAudioDir targetAudioDir [] = (c, Done)"
| "compressEach_mp3 enc c sourceAudioDir targetAudioDir (file # rest) =
     (case compressFile_mp3 enc c sourceAudioDir targetAudioDir file of
        (c', Done) \<Rightarrow>
          compressEach_mp3 enc (c'\<lparr>processedFiles := processedFiles c' + 1\<rparr>)
            sourceAudioDir targetAudioDir rest
      | (c', Threw e) \<Rightarrow>
          compressEach_mp3 enc (c'\<lparr>errors := errors c' @ [(file, e)]\<rparr>)
            sourceAudioDir targetAudioDir rest
      | (c', r) \<Rightarrow> (c', r))"

definition compressLanguageFiles_mp3 ::
  "encoder \<Rightarrow> compressor \<Rightarrow> path \<Rightarrow> string \<Rightarrow> compressor \<times> completion" where
  "compressLanguageFiles_mp3 enc c content language =
     (let sourceAudioDir = backupDir_mp3 content @ [language, ''audio''];
          targetAudioDir = baseDir content @ [language, ''audio'']
      in if \<not> existsSync (files c) sourceAudioDir then (c, Done)
         else case (if \<not> existsSync (files c) targetAudioDir
                    then mkdirSync (files c) targetAudioDir else Inr (files c)) of
                Inl e \<Rightarrow> (c, Threw e)
              | Inr fs1 \<Rightarrow>
                  (case readdirSync fs1 sourceAudioDir of
                     Inl e \<Rightarrow> (c\<lparr>files := fs1\<rparr>, Threw e)
                   | Inr names \<Rightarrow>
                       compressEach_mp3 enc (c\<lparr>files := fs1\<rparr>) sourceAudioDir targetAudioDir
                         (filter (\<lambda>file. endsWith file ''.mp3'') names)))"

fun compressLanguages_mp3 ::
  "encoder \<Rightarrow> compressor \<Rightarrow> path \<Rightarrow> string list \<Rightarrow> compressor \<times> completion" where
  "compressLanguages_mp3 enc c content [] = (c, Done)"
| "compressLanguages_mp3 enc c content (lang # langs) =
     (case compressLanguageFiles_mp3 enc c content lang of
        (c', Done) \<Rightarrow> compressLanguages_mp3 enc c' content langs
      | (c', r) \<Rightarrow> (c', r))"

definition compressAllFiles_mp3 ::
  "nat \<Rightarrow> encoder \<Rightarrow> compressor \<Rightarrow> path \<Rightarrow> (compressor \<times> completion) option" where
  "compressAllFiles_mp3 n enc c content =
     (case createBackup n (files c) (baseDir content) (backupDir_mp3 content) of
        None \<Rightarrow> None
      | Some (fs1, Some e) \<Rightarrow> Some (c\<lparr>files := fs1\<rparr>, Threw e)
      | Some (fs1, None) \<Rightarrow>
          (case languagesOf fs1 (backupDir_mp3 content) of
             Inl e \<Rightarrow> Some (c\<lparr>files := fs1\<rparr>, Threw e)
           | Inr languages \<Rightarrow>
               Some (compressLanguages_mp3 enc (c\<lparr>files := fs1\<rparr>) content languages)))"

definition init_mp3 ::
  "nat \<Rightarrow> spawned \<Rightarrow> encoder \<Rightarrow> compressor \<Rightarrow> path \<Rightarrow> (compressor \<times> completion) option" where
  "init_mp3 n probe enc c content =
     (if \<not> checkFFmpeg probe then Some (c, Exit 1)
      else case analyzeCurrentFiles c (backupDir_mp3 content) of
             (c', Done) \<Rightarrow> compressAllFiles_mp3 n enc c' content
           | (c', r) \<Rightarrow> Some (c', r))"


section \<open>Properties of the rewriter\<close>

lemma counts:
  fixes d :: "'n json" and items :: "'n json list" and r r' :: "'n result"
    and es :: "(string \<times> 'n json) list"
  shows "hasChanges (updateObjectReferences d) = (0 < countRefs d) \<and>
   changeCount (updateObjectReferences d) = countRefs d"
  and "hasChanges (snd (mapItems items r)) = (hasChanges r \<or> 0 < countItems items) \<and>
   changeCount (snd (mapItems items r)) = changeCount r + countItems items"
  and "hasChanges (forEntries es r') = (hasChanges r' \<or> 0 < countEntries es) \<and>
   changeCount (forEntries es r') = changeCount r' + countEntries es"
  by (induction d and items r and es r' rule: updateObjectReferences_mapItems_forEntries.induct)
     (auto simp: bump_def absorb_def store_def Let_def split: prod.splits)

lemma mapItems_fst: "fst (mapItems items r) = map converted items"
proof (induction items arbitrary: r)
  case Nil
  then show ?case by simp
next
  case (Cons x xs)
  then show ?case by (cases x) (simp_all add: Let_def split: prod.splits, (metis fst_conv)+)
qed

lemma forEntries_data:
  "data (forEntries es r) = foldl (\<lambda>d (k, v). setProperty d k (converted v)) (data r) es"
proof (induction es arbitrary: r)
  case Nil
  then show ?case by simp
next
  case (Cons e es)
  obtain k v where e: "e = (k, v)" by (cases e)
  show ?case unfolding e
    by (cases v) (simp_all add: Cons.IH Let_def bump_def absorb_def store_def)
qed


lemma keyOrdered_append_left: "keyOrdered (ks @ ks') \<Longrightarrow> keyOrdered ks"
  by (induction ks rule: keyOrdered.induct) auto

lemma keyOrdered_snoc_index:
  "keyOrdered (ks @ [k]) \<Longrightarrow> isArrayIndex k \<Longrightarrow> k' \<in> set ks \<Longrightarrow>
   isArrayIndex k' \<and> decimal k' < decimal k"
proof (induction ks arbitrary: k')
  case Nil
  then show ?case by simp
next
  case (Cons a ks)
  show ?case
  proof (cases ks)
    case Nil
    with Cons.prems show ?thesis by simp
  next
    case (Cons b ks')
    with Cons.prems have tl: "keyOrdered (ks @ [k])" and ab: "isArrayIndex b \<longrightarrow> isArrayIndex a \<and> decimal a < decimal b"
      by simp_all
    have b: "isArrayIndex b \<and> decimal b < decimal k"
      using Cons.IH [OF tl \<open>isArrayIndex k\<close>, of b] Cons by simp
    show ?thesis
    proof (cases "k' = a")
      case True
      with ab b show ?thesis by auto
    next
      case False
      with Cons.prems have "k' \<in> set ks" by simp
      then show ?thesis using Cons.IH [OF tl \<open>isArrayIndex k\<close>] by blast
    qed
  qed
qed

lemma insertIndex_append:
  "(\<And>k'. k' \<in> fst ` set ps \<Longrightarrow> isArrayIndex k' \<and> decimal k' < decimal k) \<Longrightarrow>
   insertIndex k v ps = ps @ [(k, v)]"
  by (induction ps) auto

lemma defineOwn_append:
  assumes "k \<notin> fst ` set ps" and "keyOrdered (map fst ps @ [k])"
  shows "defineOwn ps k v = ps @ [(k, v)]"
proof (cases "isArrayIndex k")
  case True
  have "insertIndex k v ps = ps @ [(k, v)]"
  proof (rule insertIndex_append)
    fix k' assume "k' \<in> fst ` set ps"
    then have "k' \<in> set (map fst ps)" by simp
    from keyOrdered_snoc_index [OF assms(2) True this]
    show "isArrayIndex k' \<and> decimal k' < decimal k" .
  qed
  with True assms(1) show ?thesis by (simp add: defineOwn_def)
next
  case False
  with assms(1) show ?thesis by (simp add: defineOwn_def)
qed

lemma foldl_setProperty:
  "distinct (map fst (acc @ es)) \<Longrightarrow> keyOrdered (map fst (acc @ es)) \<Longrightarrow>
   ''__proto__'' \<notin> set (map fst es) \<Longrightarrow>
   foldl (\<lambda>d (k, v). setProperty d k (f v)) (JObj acc) es = JObj (acc @ map (\<lambda>(k, v). (k, f v)) es)"
proof (induction es arbitrary: acc)
  case Nil
  then show ?case by simp
next
  case (Cons e es)
  obtain k v where e: "e = (k, v)" by (cases e)
  from Cons.prems have nk: "k \<notin> fst ` set acc" and np: "k \<noteq> ''__proto__''"
    by (auto simp: e)
  from Cons.prems(2) have "keyOrdered ((map fst acc @ [k]) @ map fst es)" by (simp add: e)
  then have "keyOrdered (map fst acc @ [k])" by (rule keyOrdered_append_left)
  with nk have step: "defineOwn acc k (f v) = acc @ [(k, f v)]" by (rule defineOwn_append)
  have "foldl (\<lambda>d (k, v). setProperty d k (f v)) (JObj (acc @ [(k, f v)])) es
        = JObj ((acc @ [(k, f v)]) @ map (\<lambda>(k, v). (k, f v)) es)"
    using Cons.prems by (intro Cons.IH) (simp_all add: e)
  then show ?case using np step by (simp add: e)
qed

lemma updateObjectReferences_scalar:
  "\<not> isContainer d \<Longrightarrow>
   updateObjectReferences d = \<lparr>data = d, hasChanges = False, changeCount = 0\<rparr>"
  by (cases d) (simp_all add: isContainer_def)

lemma converted_container: "isContainer d \<Longrightarrow> converted d = data (updateObjectReferences d)"
  by (cases d) (simp_all add: isContainer_def)

lemma converted_rewriteCode:
  "parsed d \<Longrightarrow> protoFree d \<Longrightarrow> converted d = rewriteCode d"
proof (induction d)
  case (JArr xs)
  have "map converted xs = map rewriteCode xs"
  proof (rule map_cong [OF refl])
    fix x assume x: "x \<in> set xs"
    with JArr.prems have "parsed x" "protoFree x"
      by (auto simp: parsed_def protoFree_def list_all_iff)
    with JArr.IH x show "converted x = rewriteCode x" by blast
  qed
  moreover have "data (updateObjectReferences (JArr xs)) = JArr (fst (mapItems xs \<lparr>data = JObj [], hasChanges = False, changeCount = 0\<rparr>))"
    by (simp split: prod.splits)
  ultimately show ?case by (simp add: mapItems_fst)
next
  case (JObj es)
  from JObj.prems have keys: "distinct (map fst ([] @ es))" "keyOrdered (map fst ([] @ es))"
      "''__proto__'' \<notin> set (map fst es)"
    by (auto simp: parsed_def protoFree_def okKeys_def noProtoKey_def)
  have "map (\<lambda>(k, v). (k, converted v)) es = map (\<lambda>(k, v). (k, rewriteCode v)) es"
  proof (rule map_cong [OF refl])
    fix e assume e: "e \<in> set es"
    obtain k v where kv: "e = (k, v)" by (cases e)
    with e JObj.prems have "parsed v" "protoFree v"
      by (auto simp: parsed_def protoFree_def list_all_iff)
    with JObj.IH [OF e, of v] kv have "converted v = rewriteCode v" by simp
    then show "(case e of (k, v) \<Rightarrow> (k, converted v)) = (case e of (k, v) \<Rightarrow> (k, rewriteCode v))"
      by (simp add: kv)
  qed
  then show ?case
    using foldl_setProperty [OF keys, of converted] by (simp add: forEntries_data)
qed simp_all

lemma rewriteCode_rewriteSpec: "suffixOnly d \<Longrightarrow> rewriteCode d = rewriteSpec d"
proof (induction d)
  case (JStr s)
  then show ?case
    by (auto simp: suffixOnly_def suffixIsFirst_def replace_def endsWith_def)
next
  case (JArr xs)
  then show ?case by (auto simp: suffixOnly_def list_all_iff)
next
  case (JObj es)
  have "map (\<lambda>(k, v). (k, rewriteCode v)) es = map (\<lambda>(k, v). (k, rewriteSpec v)) es"
  proof (rule map_cong [OF refl])
    fix e assume e: "e \<in> set es"
    obtain k v where kv: "e = (k, v)" by (cases e)
    with e JObj.prems have "suffixOnly v" by (auto simp: suffixOnly_def list_all_iff)
    with JObj.IH [OF e, of v] kv have "rewriteCode v = rewriteSpec v" by simp
    then show "(case e of (k, v) \<Rightarrow> (k, rewriteCode v)) = (case e of (k, v) \<Rightarrow> (k, rewriteSpec v))"
      by (simp add: kv)
  qed
  then show ?case by simp
qed simp_all

lemma endsWith_append_ogg: "\<not> endsWith (p @ ''.ogg'') ''.mp3''"
  by (simp add: endsWith_def)

lemma countRefs_rewriteSpec:
  fixes d :: "'n json"
  shows "countRefs (rewriteSpec d) = 0"
proof -
  have items: "(\<And>x. x \<in> set xs \<Longrightarrow> countRefs (rewriteSpec x) = 0) \<Longrightarrow>
      countItems (map rewriteSpec xs) = 0" for xs :: "'n json list"
  proof (induction xs)
    case Nil
    then show ?case by simp
  next
    case (Cons x xs)
    then have "countRefs (rewriteSpec x) = 0" "countItems (map rewriteSpec xs) = 0" by simp_all
    then show ?case by (cases x) (simp_all add: endsWith_append_ogg)
  qed
  have entries: "(\<And>k v. (k, v) \<in> set es \<Longrightarrow> countRefs (rewriteSpec v) = 0) \<Longrightarrow>
      countEntries (map (\<lambda>(k, v). (k, rewriteSpec v)) es) = 0" for es :: "(string \<times> 'n json) list"
  proof (induction es)
    case Nil
    then show ?case by simp
  next
    case (Cons e es)
    obtain k v where kv: "e = (k, v)" by (cases e)
    have "countRefs (rewriteSpec v) = 0" using Cons.prems [of k v] kv by simp
    moreover have "countEntries (map (\<lambda>(k, v). (k, rewriteSpec v)) es) = 0"
      using Cons.prems by (intro Cons.IH) auto
    ultimately show ?case unfolding kv by (cases v) (simp_all add: endsWith_append_ogg)
  qed
  show ?thesis
  proof (induction d)
    case (JArr xs)
    then show ?case by (simp add: items)
  next
    case (JObj es)
    have "countEntries (map (\<lambda>(k, v). (k, rewriteSpec v)) es) = 0"
    proof (rule entries)
      fix k v assume "(k, v) \<in> set es"
      then show "countRefs (rewriteSpec v) = 0" using JObj.IH [of "(k, v)" v] by simp
    qed
    then show ?case by simp
  qed simp_all
qed

lemma second_pass_regular:
  assumes "parsed d" "protoFree d" "suffixOnly d"
  shows "changeCount (updateObjectReferences (data (updateObjectReferences d))) = 0"
proof (cases "isContainer d")
  case True
  with assms have "data (updateObjectReferences d) = rewriteSpec d"
    using converted_container converted_rewriteCode rewriteCode_rewriteSpec by metis
  then show ?thesis by (simp add: counts(1) countRefs_rewriteSpec)
next
  case False
  then show ?thesis by (simp add: updateObjectReferences_scalar)
qed

lemma indexOf_sound:
  "indexOf s pat = Some i \<Longrightarrow> s = take i s @ pat @ drop (i + length pat) s"
proof (induction s arbitrary: i)
  case Nil
  then show ?case by (simp split: if_splits)
next
  case (Cons c cs)
  show ?case
  proof (cases "startsWith (c # cs) pat")
    case True
    with Cons.prems have "i = 0" by simp
    moreover from True have "c # cs = pat @ drop (length pat) (c # cs)"
      unfolding startsWith_def by (metis append_take_drop_id)
    ultimately show ?thesis by simp
  next
    case False
    with Cons.prems obtain j where j: "indexOf cs pat = Some j" "i = Suc j" by auto
    from Cons.IH [OF j(1)] show ?thesis unfolding j(2) by simp
  qed
qed

lemma indexOf_complete: "indexOf (a @ pat @ b) pat \<noteq> None"
proof (induction a)
  case Nil
  have "startsWith (pat @ b) pat" by (simp add: startsWith_def)
  then show ?case by (cases "pat @ b") simp_all
next
  case (Cons c cs)
  then show ?case by simp
qed

text \<open>A string that ends in \<open>.mp3\<close> is changed by \<open>replace('.mp3', '.ogg')\<close>.\<close>

lemma replace_changes:
  assumes "endsWith s ''.mp3''"
  shows "replace s ''.mp3'' ''.ogg'' \<noteq> s"
proof -
  define n where "n = length s - length ''.mp3''"
  from assms have "drop n s = ''.mp3''" unfolding endsWith_def n_def by (rule conjunct2)
  with append_take_drop_id [of n s] have "s = take n s @ ''.mp3'' @ []" by simp
  with indexOf_complete [of "take n s" "''.mp3''" "[]"]
  have "indexOf s ''.mp3'' \<noteq> None" by simp
  then obtain i where i: "indexOf s ''.mp3'' = Some i" by auto
  define p r where "p = take i s" and "r = drop (i + length ''.mp3'') s"
  from indexOf_sound [OF i] have s: "s = p @ ''.mp3'' @ r" unfolding p_def r_def .
  from i have "replace s ''.mp3'' ''.ogg'' = p @ ''.ogg'' @ r"
    unfolding replace_def p_def r_def by simp
  moreover have "p @ ''.ogg'' @ r \<noteq> p @ ''.mp3'' @ r" by simp
  ultimately show ?thesis using s by simp
qed

lemma replaced_rewriteCode:
  fixes d :: "'n json"
  shows "parsed d \<Longrightarrow>
    replacedLeaves d (rewriteCode d) =
      countRefs d + (case d of JStr s \<Rightarrow> if endsWith s ''.mp3'' then 1 else 0 | _ \<Rightarrow> 0)"
proof (induction d)
  case (JStr s)
  then show ?case using replace_changes [of s] by auto
next
  case (JArr xs)
  have "(\<And>x. x \<in> set ys \<Longrightarrow> parsed x \<and> replacedLeaves x (rewriteCode x) =
          countRefs x + (case x of JStr s \<Rightarrow> if endsWith s ''.mp3'' then 1 else 0 | _ \<Rightarrow> 0)) \<Longrightarrow>
     replacedItems ys (map rewriteCode ys) = countItems ys" for ys :: "'n json list"
  proof (induction ys)
    case Nil
    then show ?case by simp
  next
    case (Cons y ys)
    then have "replacedItems ys (map rewriteCode ys) = countItems ys" by simp
    moreover from Cons.prems [of y] have "replacedLeaves y (rewriteCode y) =
        countRefs y + (case y of JStr s \<Rightarrow> if endsWith s ''.mp3'' then 1 else 0 | _ \<Rightarrow> 0)"
      by simp
    ultimately show ?case by (cases y) simp_all
  qed
  moreover have "\<And>x. x \<in> set xs \<Longrightarrow> parsed x"
    using JArr.prems by (auto simp: parsed_def list_all_iff)
  ultimately show ?case using JArr.IH by simp
next
  case (JObj es)
  have step: "set fs \<subseteq> set es \<Longrightarrow>
      replacedEntries es (map (\<lambda>(k, v). (k, rewriteCode v)) fs) = countEntries fs" for fs
  proof (induction fs)
    case Nil
    then show ?case by simp
  next
    case (Cons f fs)
    obtain k v where kv: "f = (k, v)" by (cases f)
    from Cons.prems kv have mem: "(k, v) \<in> set es" by simp
    from JObj.prems have "distinct (map fst es)" by (simp add: parsed_def okKeys_def)
    with mem have look: "map_of es k = Some v" by simp
    from mem JObj.prems have "parsed v" by (auto simp: parsed_def list_all_iff)
    with JObj.IH [OF mem, of v] have v: "replacedLeaves v (rewriteCode v) =
        countRefs v + (case v of JStr s \<Rightarrow> if endsWith s ''.mp3'' then 1 else 0 | _ \<Rightarrow> 0)"
      by simp
    from Cons have rest:
      "replacedEntries es (map (\<lambda>(k, v). (k, rewriteCode v)) fs) = countEntries fs" by simp
    show ?case unfolding kv using look v rest by (cases v) simp_all
  qed
  from step [of es] show ?case by simp
qed simp_all

text \<open>
  For every input value the returned record has \<open>hasChanges\<close> exactly when \<open>changeCount\<close>
  is positive, and \<open>changeCount\<close> is the number of strings ending in \<open>.mp3\<close> that sit in
  an array or an object at any depth of the input, nested counts added once.
\<close>

lemma changeCount_countRefs:
  "hasChanges (updateObjectReferences d) = (0 < changeCount (updateObjectReferences d)) \<and>
   changeCount (updateObjectReferences d) = countRefs d"
  using counts(1) [of d] by simp

text \<open>
  For a parsed document without a key \<open>__proto__\<close>, \<open>changeCount\<close> is the number of
  string leaves replaced in the returned tree.
\<close>

lemma changeCount_replacedLeaves:
  assumes "parsed d" "protoFree d"
  shows "changeCount (updateObjectReferences d) =
         replacedLeaves d (data (updateObjectReferences d))"
proof (cases "isContainer d")
  case True
  with assms have "data (updateObjectReferences d) = rewriteCode d"
    using converted_container converted_rewriteCode by metis
  moreover from True assms(1) have "replacedLeaves d (rewriteCode d) = countRefs d"
    using replaced_rewriteCode [of d] by (cases d) (simp_all add: isContainer_def)
  ultimately show ?thesis by (simp add: counts(1))
next
  case False
  then show ?thesis by (cases d) (simp_all add: isContainer_def)
qed

text \<open>
  Claim C10 (\<open>changeCount\<close> is the number of string leaves replaced in the returned tree)
  at the document \<open>{"__proto__": "a.mp3"}\<close>: the string is counted and \<open>hasChanges\<close> is
  set, but assigning the replaced string to \<open>result.data['__proto__']\<close> creates no
  property, so the returned tree is the empty object and no leaf of it was replaced.
\<close>
theorem proto_leaf_counted_not_returned:
  "parsed (JObj [(''__proto__'', JStr ''a.mp3'')] :: int json) \<and>
   updateObjectReferences (JObj [(''__proto__'', JStr ''a.mp3'')] :: int json)
     = \<lparr>data = JObj [], hasChanges = True, changeCount = 1\<rparr> \<and>
   replacedLeaves (JObj [(''__proto__'', JStr ''a.mp3'')] :: int json) (JObj []) = 0"
  by (simp add: parsed_def okKeys_def endsWith_def replace_def startsWith_def bump_def store_def)

text \<open>
  Claim C1, as stated, fails for a document that is a bare string: the string ends in
  \<open>.mp3\<close> and is returned as it is.
\<close>
theorem root_string_counterexample:
  "data (updateObjectReferences (JStr ''intro.mp3'' :: int json)) = JStr ''intro.mp3'' \<and>
   rewriteSpec (JStr ''intro.mp3'' :: int json) = JStr ''intro.ogg''"
  by (simp add: endsWith_def)

text \<open>
  Claim C1, amended.  A document that is a bare scalar is returned as it is.  For a parsed
  document that is an array or an object, has no key \<open>__proto__\<close>, and in whose strings
  \<open>.mp3\<close> does not occur before a final \<open>.mp3\<close>, the returned data is the input with
  every string ending in \<open>.mp3\<close> replaced by the same string minus that suffix plus
  \<open>.ogg\<close>, and everything else (other values, keys, order, nesting) identical.
\<close>

theorem rewrite_inside_containers:
  "(\<not> isContainer d \<longrightarrow> data (updateObjectReferences d) = d) \<and>
   (isContainer d \<and> parsed d \<and> protoFree d \<and> suffixOnly d \<longrightarrow>
      data (updateObjectReferences d) = rewriteSpec d)"
proof (intro conjI impI)
  assume "\<not> isContainer d"
  then show "data (updateObjectReferences d) = d" by (simp add: updateObjectReferences_scalar)
next
  assume a: "isContainer d \<and> parsed d \<and> protoFree d \<and> suffixOnly d"
  then have "data (updateObjectReferences d) = converted d" by (simp add: converted_container)
  also from a have "\<dots> = rewriteCode d" by (simp add: converted_rewriteCode)
  also from a have "\<dots> = rewriteSpec d" by (simp add: rewriteCode_rewriteSpec)
  finally show "data (updateObjectReferences d) = rewriteSpec d" .
qed

theorem rewrite_inside_containers_witness:
  "isContainer (JObj [(''sound'', JStr ''intro.mp3''), (''list'', JArr [JStr ''a.mp3'', JStr ''b.png'', JNum (7::int)])])
   \<and> parsed (JObj [(''sound'', JStr ''intro.mp3''), (''list'', JArr [JStr ''a.mp3'', JStr ''b.png'', JNum (7::int)])])
   \<and> protoFree (JObj [(''sound'', JStr ''intro.mp3''), (''list'', JArr [JStr ''a.mp3'', JStr ''b.png'', JNum (7::int)])])
   \<and> suffixOnly (JObj [(''sound'', JStr ''intro.mp3''), (''list'', JArr [JStr ''a.mp3'', JStr ''b.png'', JNum (7::int)])])
   \<and> data (updateObjectReferences (JObj [(''sound'', JStr ''intro.mp3''), (''list'', JArr [JStr ''a.mp3'', JStr ''b.png'', JNum (7::int)])]))
       = JObj [(''sound'', JStr ''intro.ogg''), (''list'', JArr [JStr ''a.ogg'', JStr ''b.png'', JNum 7])]"
  using rewrite_inside_containers
    [of "JObj [(''sound'', JStr ''intro.mp3''), (''list'', JArr [JStr ''a.mp3'', JStr ''b.png'', JNum (7::int)])]"]
  by (simp add: isContainer_def parsed_def protoFree_def suffixOnly_def okKeys_def noProtoKey_def
      suffixIsFirst_def endsWith_def startsWith_def isArrayIndex_def isDigit_def)

text \<open>
  Claim C2 (idempotence) at the document \<open>["a.mp3.mp3"]\<close>: the first pass replaces the
  first occurrence of \<open>.mp3\<close>, the result still ends in \<open>.mp3\<close>, and a second pass
  reports one more change.
\<close>
theorem second_pass_changes_again:
  "data (updateObjectReferences (JArr [JStr ''a.mp3.mp3''] :: int json)) = JArr [JStr ''a.ogg.mp3''] \<and>
   updateObjectReferences (data (updateObjectReferences (JArr [JStr ''a.mp3.mp3''] :: int json)))
     = \<lparr>data = JArr [JStr ''a.ogg.ogg''], hasChanges = True, changeCount = 1\<rparr>"
  by (simp add: endsWith_def replace_def startsWith_def bump_def)

text \<open>
  Claim C5 (keys and their order are preserved) at the document
  \<open>{"a": "x.mp3", "__proto__": 5}\<close>: the returned object has lost the key \<open>__proto__\<close>,
  and since a value changed the file is rewritten without it.
\<close>
theorem proto_key_dropped:
  "updateObjectReferences (JObj [(''a'', JStr ''x.mp3''), (''__proto__'', JNum (5::int))])
     = \<lparr>data = JObj [(''a'', JStr ''x.ogg'')], hasChanges = True, changeCount = 1\<rparr>"
  by (simp add: endsWith_def replace_def startsWith_def bump_def store_def defineOwn_def
      isArrayIndex_def isDigit_def)

section \<open>Properties of the file update\<close>










text \<open>
  Claim C9.  A document that is a bare scalar, a string ending in \<open>.mp3\<close> included, is
  returned unchanged with \<open>changeCount = 0\<close> and \<open>hasChanges = false\<close>, and the file
  holding it is not rewritten.
\<close>
theorem root_scalar_untouched:
  assumes "\<not> isContainer d"
  shows "updateObjectReferences d = \<lparr>data = d, hasChanges = False, changeCount = 0\<rparr>
    \<and> (readFileSync (disk u) filePath = Inr content \<and> parse content = Inr d \<longrightarrow>
         updateJsonFile parse stringify u filePath = (u, False))"
  using assms by (simp add: updateObjectReferences_scalar updateJsonFile_def)

theorem root_scalar_untouched_witness:
  "\<not> isContainer (JStr ''intro.mp3'' :: int json)
   \<and> endsWith ''intro.mp3'' ''.mp3''
   \<and> updateObjectReferences (JStr ''intro.mp3'' :: int json)
       = \<lparr>data = JStr ''intro.mp3'', hasChanges = False, changeCount = 0\<rparr>
   \<and> readFileSync (Dir [(''a.json'', File ''A'')]) [''a.json''] = Inr ''A''
   \<and> updateJsonFile (\<lambda>c. Inr (JStr ''intro.mp3'' :: int json)) (\<lambda>v. ''?'')
        \<lparr>disk = Dir [(''a.json'', File ''A'')], jsonFilesUpdated = 0,
          audioReferencesUpdated = 0, console = []\<rparr> [''a.json'']
      = (\<lparr>disk = Dir [(''a.json'', File ''A'')], jsonFilesUpdated = 0,
          audioReferencesUpdated = 0, console = []\<rparr>, False)"
  using root_scalar_untouched
    [of "JStr ''intro.mp3'' :: int json"
        "\<lparr>disk = Dir [(''a.json'', File ''A'')], jsonFilesUpdated = 0,
          audioReferencesUpdated = 0, console = []\<rparr>"
        "[''a.json'']" "''A''" "\<lambda>c. Inr (JStr ''intro.mp3'')" "\<lambda>v. ''?''"]
  by (simp add: isContainer_def endsWith_def readFileSync_def)

section \<open>Properties of the file system calls\<close>

lemma size_child: "map_of es x = Some child \<Longrightarrow> size child < size (Dir es)"
  by (induction es) (auto split: if_splits)

lemma lookup_append:
  "lookup fs (p @ q) = (case lookup fs p of None \<Rightarrow> None | Some n \<Rightarrow> lookup n q)"
proof (induction p arbitrary: fs)
  case Nil
  then show ?case by simp
next
  case (Cons x p)
  then show ?case by (cases fs) (auto split: option.splits)
qed

lemma lookup_file_below: "lookup fs p = Some (File c) \<Longrightarrow> q \<noteq> [] \<Longrightarrow> lookup fs (p @ q) = None"
  by (cases q) (simp_all add: lookup_append)

lemma lookup_none_below: "lookup fs p = None \<Longrightarrow> lookup fs (p @ q) = None"
  by (simp add: lookup_append)

lemma lookup_prefix_dir:
  "lookup fs (p @ q) = Some n \<Longrightarrow> q \<noteq> [] \<Longrightarrow> \<exists>es. lookup fs p = Some (Dir es)"
  by (cases q; cases "lookup fs p"; cases "the (lookup fs p)") (auto simp: lookup_append)

lemma mkdirp_ok:
  "lookup fs p = Some (Dir es) \<Longrightarrow> lookup fs (p @ [x]) = None \<Longrightarrow> \<exists>fs'. mkdirp fs (p @ [x]) = Some fs'"
proof (induction p arbitrary: fs)
  case Nil
  then show ?case by (cases fs) (auto split: option.splits)
next
  case (Cons y p)
  then show ?case by (cases fs) (fastforce split: option.splits)+
qed

lemma mkdirp_entryAt:
  "mkdirp fs p = Some fs' \<Longrightarrow> entryAt fs' q = (if prefix q p then Some IsDir else entryAt fs q)"
proof (induction p arbitrary: fs fs' q)
  case Nil
  then show ?case by (cases fs) (auto simp: entryAt_def)
next
  case (Cons x p)
  from Cons.prems obtain es where fs: "fs = Dir es" by (cases fs) auto
  define child0 where "child0 = (case map_of es x of None \<Rightarrow> Dir [] | Some child \<Rightarrow> child)"
  from Cons.prems fs obtain child' where c: "mkdirp child0 p = Some child'"
    and fs': "fs' = Dir (AList.update x child' es)"
    by (auto simp: child0_def split: option.splits)
  show ?case
  proof (cases q)
    case Nil
    then show ?thesis by (simp add: entryAt_def fs')
  next
    case (Cons y q')
    show ?thesis
    proof (cases "y = x")
      case True
      have "entryAt fs' q = entryAt child' q'"
        by (simp add: entryAt_def fs' Cons True update_conv')
      also have "\<dots> = (if prefix q' p then Some IsDir else entryAt child0 q')"
        by (rule Cons.IH [OF c])
      also have "\<dots> = (if prefix q (x # p) then Some IsDir else entryAt fs q)"
        by (cases q') (auto simp: Cons True fs entryAt_def child0_def split: option.splits)
      finally show ?thesis .
    next
      case False
      then show ?thesis by (simp add: entryAt_def fs fs' Cons update_conv')
    qed
  qed
qed

lemma mkdirp_parallel:
  "mkdirp fs p = Some fs' \<Longrightarrow> q \<parallel> p \<Longrightarrow> lookup fs' q = lookup fs q"
proof (induction p arbitrary: fs fs' q)
  case Nil
  then show ?case by (simp add: parallel_def)
next
  case (Cons x p)
  from Cons.prems obtain es where fs: "fs = Dir es" by (cases fs) auto
  define child0 where "child0 = (case map_of es x of None \<Rightarrow> Dir [] | Some child \<Rightarrow> child)"
  from Cons.prems fs obtain child' where c: "mkdirp child0 p = Some child'"
    and fs': "fs' = Dir (AList.update x child' es)"
    by (auto simp: child0_def split: option.splits)
  from Cons.prems(2) obtain y q' where q: "q = y # q'" by (cases q) (auto simp: parallel_def)
  show ?case
  proof (cases "y = x")
    case True
    with Cons.prems(2) q have par: "q' \<parallel> p" by (auto simp: parallel_def)
    then have q'ne: "q' \<noteq> []" by (auto simp: parallel_def)
    have "lookup fs' q = lookup child' q'" by (simp add: fs' q True update_conv')
    also have "\<dots> = lookup child0 q'" by (rule Cons.IH [OF c par])
    also have "\<dots> = lookup fs q"
      using q'ne by (cases q') (auto simp: q True fs child0_def split: option.splits)
    finally show ?thesis .
  next
    case False
    then show ?thesis by (simp add: fs fs' q update_conv')
  qed
qed

lemma putEntry_ok:
  "lookup fs p = Some (Dir es) \<Longrightarrow> \<exists>fs'. putEntry fs (p @ [x]) new = Some fs'"
proof (induction p arbitrary: fs)
  case Nil
  then show ?case by simp
next
  case (Cons y p)
  then obtain ds child where fs: "fs = Dir ds" and ch: "map_of ds y = Some child"
    and l: "lookup child p = Some (Dir es)"
    by (cases fs) (auto split: option.splits)
  from Cons.IH [OF l] obtain child' where "putEntry child (p @ [x]) new = Some child'" by blast
  with fs ch show ?case by (cases "p @ [x]") auto
qed

lemma putEntry_parallel:
  "putEntry fs p new = Some fs' \<Longrightarrow> q \<parallel> p \<Longrightarrow> lookup fs' q = lookup fs q"
proof (induction fs p new arbitrary: fs' q rule: putEntry.induct)
  case (1 n new)
  then show ?case by (simp add: parallel_def)
next
  case (2 c x p new)
  then show ?case by simp
next
  case (3 es x new)
  from "3.prems"(2) obtain y q' where q: "q = y # q'" and "y \<noteq> x"
    by (cases q) (auto simp: parallel_def)
  with "3.prems"(1) show ?case by (auto simp: update_conv')
next
  case (4 es x y p new)
  from "4.prems"(1) obtain child child' where ch: "map_of es x = Some child"
    and c: "putEntry child (y # p) new = Some child'"
    and fs': "fs' = Dir (AList.update x child' es)"
    by (auto split: option.splits)
  from "4.prems"(2) obtain z q' where q: "q = z # q'" by (cases q) (auto simp: parallel_def)
  show ?case
  proof (cases "z = x")
    case True
    with "4.prems"(2) q have "q' \<parallel> (y # p)" by (auto simp: parallel_def)
    from "4.IH" [OF ch c this] show ?thesis by (simp add: fs' q True update_conv' ch)
  next
    case False
    then show ?thesis by (simp add: fs' q update_conv')
  qed
qed

lemma putEntry_strict_prefix:
  "putEntry fs p new = Some fs' \<Longrightarrow> strict_prefix q p \<Longrightarrow> entryAt fs' q = entryAt fs q"
proof (induction fs p new arbitrary: fs' q rule: putEntry.induct)
  case (1 n new)
  then show ?case by simp
next
  case (2 c x p new)
  then show ?case by simp
next
  case (3 es x new)
  then have "q = []" by (cases q) (auto simp: strict_prefix_def)
  with "3.prems"(1) show ?case by (auto simp: entryAt_def)
next
  case (4 es x y p new)
  from "4.prems"(1) obtain child child' where ch: "map_of es x = Some child"
    and c: "putEntry child (y # p) new = Some child'"
    and fs': "fs' = Dir (AList.update x child' es)"
    by (auto split: option.splits)
  show ?case
  proof (cases q)
    case Nil
    then show ?thesis by (simp add: entryAt_def fs')
  next
    case (Cons z q')
    with "4.prems"(2) have z: "z = x" and sp: "strict_prefix q' (y # p)"
      by (auto simp: strict_prefix_def)
    from "4.IH" [OF ch c sp] show ?thesis
      by (simp add: entryAt_def fs' Cons z update_conv' ch)
  qed
qed

lemma putEntry_below:
  "putEntry fs p new = Some fs' \<Longrightarrow> lookup fs' (p @ q) = lookup new q"
  by (induction fs p new arbitrary: fs' rule: putEntry.induct)
     (auto split: option.splits simp: update_conv')

lemma copyFileSync_file:
  assumes src: "lookup fs src = Some (File c)"
    and parent: "lookup fs dp = Some (Dir des)"
    and target: "\<forall>es. lookup fs (dp @ [x]) \<noteq> Some (Dir es)"
  shows "\<exists>fs'. copyFileSync fs src (dp @ [x]) = Inr fs'
           \<and> (\<forall>q. q \<parallel> (dp @ [x]) \<longrightarrow> lookup fs' q = lookup fs q)
           \<and> (\<forall>q. strict_prefix q (dp @ [x]) \<longrightarrow> entryAt fs' q = entryAt fs q)
           \<and> (\<forall>q. entryAt fs' ((dp @ [x]) @ q) = (if q = [] then Some (IsFile c) else None))"
proof -
  from putEntry_ok [OF parent] obtain fs' where p: "putEntry fs (dp @ [x]) (File c) = Some fs'"
    by blast
  from target have nd: "(case lookup fs (dp @ [x]) of Some (Dir es) \<Rightarrow> a | _ \<Rightarrow> b) = b" for a b :: "'a"
    by (auto split: option.splits node.splits)
  have "copyFileSync fs src (dp @ [x]) = Inr fs'"
    using src p target by (auto simp: copyFileSync_def writeFileSync_def split: option.splits node.splits)
  moreover have "\<forall>q. entryAt fs' ((dp @ [x]) @ q) = (if q = [] then Some (IsFile c) else None)"
  proof
    fix q show "entryAt fs' ((dp @ [x]) @ q) = (if q = [] then Some (IsFile c) else None)"
      using putEntry_below [OF p, of q] by (cases q) (simp_all add: entryAt_def)
  qed
  ultimately show ?thesis
    using putEntry_parallel [OF p] putEntry_strict_prefix [OF p] by blast
qed

lemma entryAt_lookup: "lookup fs' p = lookup fs p \<Longrightarrow> entryAt fs' p = entryAt fs p"
  by (simp add: entryAt_def)

lemma entryAt_dir: "entryAt fs p = Some IsDir \<Longrightarrow> \<exists>es. lookup fs p = Some (Dir es)"
  by (cases "lookup fs p"; cases "the (lookup fs p)") (auto simp: entryAt_def)

lemma entryAt_none: "entryAt fs p = None \<longleftrightarrow> lookup fs p = None"
  by (simp add: entryAt_def)

lemma dropEntry_file:
  "lookup fs p = Some (File c) \<Longrightarrow> p \<noteq> [] \<Longrightarrow> \<exists>fs'. dropEntry fs p = Some fs' \<and> lookup fs' p = None"
proof (induction fs p rule: dropEntry.induct)
  case (4 es x y p)
  then obtain child where ch: "map_of es x = Some child" and l: "lookup child (y # p) = Some (File c)"
    by (auto split: option.splits)
  from "4.IH" [OF ch l] obtain child' where "dropEntry child (y # p) = Some child'"
    and "lookup child' (y # p) = None" by auto
  with ch show ?case by (simp add: update_conv')
qed (auto simp: delete_conv')

lemma unlinkSync_file:
  assumes "lookup fs p = Some (File c)" and "p \<noteq> []"
  shows "\<exists>fs'. unlinkSync fs p = Inr fs' \<and> \<not> existsSync fs' p"
  using dropEntry_file [OF assms] assms(1) by (auto simp: unlinkSync_def existsSync_def)



section \<open>Properties of the backup\<close>

lemma parallel_snoc: "p \<parallel> d \<Longrightarrow> p \<parallel> (d @ [x])"
  by (auto simp: parallel_def prefix_def append_eq_append_conv2 Cons_eq_append_conv)

lemma parallel_below: "s \<parallel> d \<Longrightarrow> (s @ q) \<parallel> d"
  using parallel_append [of s d q "[]"] by simp

lemma parallel_sibling: "x \<noteq> y \<Longrightarrow> (d @ x # q) \<parallel> (d @ [y])"
  by (auto simp: parallel_def)

lemma strict_prefix_snoc: "strict_prefix p d \<Longrightarrow> strict_prefix p (d @ [x])"
  by (auto simp: strict_prefix_def prefix_def)

lemma siblings_parallel: "b \<noteq> k \<Longrightarrow> (parent @ [b]) \<parallel> (parent @ [k])"
  by (auto simp: parallel_def)

lemma wellFormed_child: "wellFormed (Dir es) \<Longrightarrow> map_of es x = Some child \<Longrightarrow> wellFormed child"
  by (auto simp: list_all_iff dest!: map_of_SomeD)

lemma prefix_of_dir:
  assumes "lookup fs dp = Some (Dir des)" and "prefix p dp"
  shows "entryAt fs p = Some IsDir"
proof -
  from assms(2) obtain q where dp: "dp = p @ q" by (auto simp: prefix_def)
  show ?thesis
  proof (cases q)
    case Nil
    with assms(1) dp show ?thesis by (simp add: entryAt_def)
  next
    case (Cons y q')
    with assms(1) dp lookup_prefix_dir [of fs p q "Dir des"] show ?thesis
      by (auto simp: entryAt_def)
  qed
qed

lemma partly_step:
  assumes inv: "partly fs0 fs1 src dest seen"
    and g: "grafted fs1 fs2 (dest @ [item])"
    and new: "\<forall>q. entryAt fs2 (dest @ item # q) = entryAt fs0 (src @ item # q)"
  shows "partly fs0 fs2 src dest (insert item seen)"
proof -
  have a: "lookup fs2 p = lookup fs0 p" if "p \<parallel> dest" for p
  proof -
    from that have "p \<parallel> (dest @ [item])" by (rule parallel_snoc)
    with g have "lookup fs2 p = lookup fs1 p" by (simp add: grafted_def)
    with inv that show ?thesis by (simp add: partly_def grafted_def)
  qed
  have b: "entryAt fs2 p = entryAt fs0 p" if "strict_prefix p dest" for p
  proof -
    from that have "strict_prefix p (dest @ [item])" by (rule strict_prefix_snoc)
    with g have "entryAt fs2 p = entryAt fs1 p" by (simp add: grafted_def)
    with inv that show ?thesis by (simp add: partly_def grafted_def)
  qed
  have "strict_prefix dest (dest @ [item])" by (simp add: strict_prefix_def)
  with g have "entryAt fs2 dest = entryAt fs1 dest" by (simp add: grafted_def)
  with inv have c: "entryAt fs2 dest = Some IsDir" by (simp add: partly_def)
  have d: "entryAt fs2 (dest @ x # q) = (if x \<in> insert item seen then entryAt fs0 (src @ x # q) else None)"
    for x q
  proof (cases "x = item")
    case True
    with new show ?thesis by simp
  next
    case False
    then have "(dest @ x # q) \<parallel> (dest @ [item])" by (rule parallel_sibling)
    with g have "entryAt fs2 (dest @ x # q) = entryAt fs1 (dest @ x # q)"
      by (simp add: grafted_def entryAt_def)
    with inv False show ?thesis by (simp add: partly_def)
  qed
  from a b c d show ?thesis by (simp add: partly_def grafted_def)
qed

lemma partly_done:
  assumes inv: "partly fs fs' src dest (set (map fst es))" and src: "lookup fs src = Some (Dir es)"
  shows "copied fs fs' src dest"
proof -
  have "entryAt fs' (dest @ q) = entryAt fs (src @ q)" for q
  proof (cases q)
    case Nil
    with inv src show ?thesis by (simp add: partly_def entryAt_def)
  next
    case (Cons x q')
    show ?thesis
    proof (cases "x \<in> set (map fst es)")
      case True
      with inv Cons show ?thesis by (simp add: partly_def)
    next
      case False
      then have "map_of es x = None" by (simp add: map_of_eq_None_iff)
      with src have "lookup fs (src @ x # q') = None" by (simp add: lookup_append)
      with inv Cons False show ?thesis by (simp add: partly_def entryAt_def)
    qed
  qed
  with inv show ?thesis by (simp add: copied_def partly_def)
qed

lemma copyItems_correct:
  assumes dirs: "\<And>fs src dp x es des.
      lookup fs src = Some (Dir es) \<Longrightarrow> wellFormed (Dir es) \<Longrightarrow> size (Dir es) \<le> n \<Longrightarrow>
      src \<parallel> (dp @ [x]) \<Longrightarrow> lookup fs (dp @ [x]) = None \<Longrightarrow> lookup fs dp = Some (Dir des) \<Longrightarrow>
      \<exists>fs'. copyDirectory n fs src (dp @ [x]) = Some (fs', None) \<and> copied fs fs' src (dp @ [x])"
    and src: "lookup fs0 src = Some (Dir es)" and wf: "wellFormed (Dir es)"
    and sz: "size (Dir es) \<le> Suc n" and par: "src \<parallel> dest"
    and items: "map fst es = pre @ items" and inv: "partly fs0 fs1 src dest (set pre)"
  shows "\<exists>fs'. copyItems n fs1 src dest items = Some (fs', None)
               \<and> partly fs0 fs' src dest (set (pre @ items))"
  using items inv
proof (induction items arbitrary: pre fs1)
  case Nil
  then show ?case by simp
next
  case (Cons item items)
  from wf have "distinct (map fst es)" by simp
  with Cons.prems(1) have fresh: "item \<notin> set pre" by auto
  from Cons.prems(1) have "item \<in> set (map fst es)" by simp
  then obtain child where child: "map_of es item = Some child"
    by (cases "map_of es item") (auto simp: map_of_eq_None_iff)
  with src have l0: "lookup fs0 (src @ [item]) = Some child" by (simp add: lookup_append)
  have below: "lookup fs1 (src @ item # q) = lookup fs0 (src @ item # q)" for q
    using Cons.prems(2) parallel_below [OF par, of "item # q"] by (simp add: partly_def grafted_def)
  from below [of "[]"] l0 have l1: "lookup fs1 (src @ [item]) = Some child" by simp
  then have stat: "statSync fs1 (src @ [item]) = Inr child" by (simp add: statSync_def)
  from Cons.prems(2) fresh have "entryAt fs1 (dest @ [item]) = None" by (simp add: partly_def)
  then have absent: "lookup fs1 (dest @ [item]) = None" by (simp add: entryAt_none)
  from Cons.prems(2) have "entryAt fs1 dest = Some IsDir" by (simp add: partly_def)
  then obtain des where dest: "lookup fs1 dest = Some (Dir des)" by (blast dest: entryAt_dir)
  have "\<exists>fs2. copyItems n fs1 src dest (item # items) = copyItems n fs2 src dest items
            \<and> partly fs0 fs2 src dest (insert item (set pre))"
  proof (cases child)
    case (Dir es')
    from wf child have "wellFormed child" by (rule wellFormed_child)
    moreover from size_child [OF child] sz have "size child \<le> n" by simp
    moreover from par have "(src @ [item]) \<parallel> (dest @ [item])" by (rule parallel_append)
    ultimately obtain fs2 where run: "copyDirectory n fs1 (src @ [item]) (dest @ [item]) = Some (fs2, None)"
      and cp: "copied fs1 fs2 (src @ [item]) (dest @ [item])"
      using dirs [of fs1 "src @ [item]" es' dest item des] l1 absent dest Dir by auto
    have "\<forall>q. entryAt fs2 (dest @ item # q) = entryAt fs0 (src @ item # q)"
    proof
      fix q
      from cp have "entryAt fs2 ((dest @ [item]) @ q) = entryAt fs1 ((src @ [item]) @ q)"
        by (simp only: copied_def)
      with below [of q] show "entryAt fs2 (dest @ item # q) = entryAt fs0 (src @ item # q)"
        by (simp add: entryAt_def)
    qed
    with Cons.prems(2) cp have "partly fs0 fs2 src dest (insert item (set pre))"
      by (intro partly_step [where ?fs1.0 = fs1]) (simp_all add: copied_def)
    moreover from stat run Dir
    have "copyItems n fs1 src dest (item # items) = copyItems n fs2 src dest items" by simp
    ultimately show ?thesis by blast
  next
    case (File c)
    from absent have "\<forall>es. lookup fs1 (dest @ [item]) \<noteq> Some (Dir es)" by simp
    from copyFileSync_file [OF l1 [unfolded File] dest this]
    obtain fs2 where run: "copyFileSync fs1 (src @ [item]) (dest @ [item]) = Inr fs2"
      and g: "grafted fs1 fs2 (dest @ [item])"
      and new: "\<forall>q. entryAt fs2 ((dest @ [item]) @ q) = (if q = [] then Some (IsFile c) else None)"
      by (auto simp: grafted_def)
    have "\<forall>q. entryAt fs2 (dest @ item # q) = entryAt fs0 (src @ item # q)"
    proof
      fix q
      have "entryAt fs0 (src @ item # q) = (if q = [] then Some (IsFile c) else None)"
        using l0 File lookup_file_below [of fs0 "src @ [item]" c q]
        by (cases q) (simp_all add: entryAt_def)
      with new [rule_format, of q] show "entryAt fs2 (dest @ item # q) = entryAt fs0 (src @ item # q)"
        by simp
    qed
    with Cons.prems(2) g have "partly fs0 fs2 src dest (insert item (set pre))"
      by (intro partly_step [where ?fs1.0 = fs1]) simp_all
    moreover from stat run File
    have "copyItems n fs1 src dest (item # items) = copyItems n fs2 src dest items" by simp
    ultimately show ?thesis by blast
  qed
  then obtain fs2 where eq: "copyItems n fs1 src dest (item # items) = copyItems n fs2 src dest items"
    and inv2: "partly fs0 fs2 src dest (set (pre @ [item]))" by auto
  from Cons.prems(1) have "map fst es = (pre @ [item]) @ items" by simp
  from Cons.IH [OF this inv2] eq show ?case by simp
qed

lemma copyDirectory_correct:
  "lookup fs src = Some (Dir es) \<Longrightarrow> wellFormed (Dir es) \<Longrightarrow> size (Dir es) \<le> n \<Longrightarrow>
   src \<parallel> (dp @ [x]) \<Longrightarrow> lookup fs (dp @ [x]) = None \<Longrightarrow> lookup fs dp = Some (Dir des) \<Longrightarrow>
   \<exists>fs'. copyDirectory n fs src (dp @ [x]) = Some (fs', None) \<and> copied fs fs' src (dp @ [x])"
proof (induction n arbitrary: fs src dp x es des)
  case 0
  then show ?case by simp
next
  case (Suc n)
  let ?dest = "dp @ [x]"
  from mkdirp_ok [OF Suc.prems(6) Suc.prems(5)] obtain fs1 where mk: "mkdirp fs ?dest = Some fs1"
    by blast
  have ex: "\<not> existsSync fs ?dest" using Suc.prems(5) by (simp add: existsSync_def)
  have g: "grafted fs fs1 ?dest"
    unfolding grafted_def
  proof (intro conjI allI impI)
    fix p assume "p \<parallel> ?dest"
    then show "lookup fs1 p = lookup fs p" by (rule mkdirp_parallel [OF mk])
  next
    fix p assume "strict_prefix p ?dest"
    then have "prefix p dp" by (auto simp: strict_prefix_def)
    with Suc.prems(6) have "entryAt fs p = Some IsDir" by (rule prefix_of_dir)
    moreover from \<open>prefix p dp\<close> have "entryAt fs1 p = Some IsDir"
      using mkdirp_entryAt [OF mk, of p] by simp
    ultimately show "entryAt fs1 p = entryAt fs p" by simp
  qed
  have "entryAt fs1 (?dest @ y # q) = None" for y q
    using mkdirp_entryAt [OF mk, of "?dest @ y # q"] lookup_none_below [OF Suc.prems(5), of "y # q"]
    by (simp add: entryAt_def)
  moreover have "entryAt fs1 ?dest = Some IsDir" using mkdirp_entryAt [OF mk, of ?dest] by simp
  ultimately have inv: "partly fs fs1 src ?dest (set [])" using g by (simp add: partly_def)
  from g Suc.prems(4) Suc.prems(1) have "lookup fs1 src = Some (Dir es)" by (simp add: grafted_def)
  then have rd: "readdirSync fs1 src = Inr (map fst es)" by (simp add: readdirSync_def)
  have "\<exists>fs'. copyItems n fs1 src ?dest (map fst es) = Some (fs', None)
               \<and> partly fs fs' src ?dest (set ([] @ map fst es))"
  proof (rule copyItems_correct [OF _ Suc.prems(1) Suc.prems(2) Suc.prems(3) Suc.prems(4) _ inv])
    show "map fst es = [] @ map fst es" by simp
  next
    fix fs src dp x es des
    assume "lookup fs src = Some (Dir es)" "wellFormed (Dir es)" "size (Dir es) \<le> n"
      "src \<parallel> (dp @ [x])" "lookup fs (dp @ [x]) = None" "lookup fs dp = Some (Dir des)"
    then show "\<exists>fs'. copyDirectory n fs src (dp @ [x]) = Some (fs', None) \<and> copied fs fs' src (dp @ [x])"
      by (rule Suc.IH)
  qed
  then obtain fs' where run: "copyItems n fs1 src ?dest (map fst es) = Some (fs', None)"
    and fin: "partly fs fs' src ?dest (set (map fst es))" by auto
  from fin Suc.prems(1) have "copied fs fs' src ?dest" by (rule partly_done)
  moreover have "copyDirectory (Suc n) fs src ?dest = Some (fs', None)"
    using ex mk rd run by (simp add: mkdirSync_def)
  ultimately show ?case by blast
qed




lemma grafted_elsewhere:
  assumes "grafted fs fs' dest" and "\<not> prefix dest p"
  shows "entryAt fs' p = entryAt fs p"
proof (cases "prefix p dest")
  case True
  with assms(2) have "strict_prefix p dest" by (auto simp: strict_prefix_def)
  with assms(1) show ?thesis by (simp add: grafted_def)
next
  case False
  with assms(2) have "p \<parallel> dest" by (simp add: parallel_def)
  with assms(1) show ?thesis by (simp add: grafted_def entryAt_def)
qed

text \<open>
  Claim C8.  When the backup directory exists (whatever it holds), \<open>createBackup\<close> leaves
  the file system as it is.  When it does not exist and the source directory is a sibling
  of it, then with enough fuel the call ends without an exception, every path below the
  backup directory holds what the same path below the source directory holds (file contents
  and directories, nothing more and nothing less), nothing outside the backup directory is
  changed, and a second call is a no-op.
\<close>

theorem createBackup_copies_or_skips:
  "(existsSync fs (parent @ [k]) \<longrightarrow>
      createBackup n fs (parent @ [b]) (parent @ [k]) = Some (fs, None))
   \<and> (\<not> existsSync fs (parent @ [k]) \<and> lookup fs (parent @ [b]) = Some (Dir es)
        \<and> wellFormed (Dir es) \<and> b \<noteq> k \<and> size (Dir es) \<le> n \<longrightarrow>
      (\<exists>fs'. createBackup n fs (parent @ [b]) (parent @ [k]) = Some (fs', None)
         \<and> (\<forall>q. entryAt fs' ((parent @ [k]) @ q) = entryAt fs ((parent @ [b]) @ q))
         \<and> (\<forall>p. \<not> prefix (parent @ [k]) p \<longrightarrow> entryAt fs' p = entryAt fs p)
         \<and> createBackup n fs' (parent @ [b]) (parent @ [k]) = Some (fs', None)))"
proof (intro conjI impI)
  assume "existsSync fs (parent @ [k])"
  then show "createBackup n fs (parent @ [b]) (parent @ [k]) = Some (fs, None)"
    by (simp add: createBackup_def)
next
  assume a: "\<not> existsSync fs (parent @ [k]) \<and> lookup fs (parent @ [b]) = Some (Dir es)
        \<and> wellFormed (Dir es) \<and> b \<noteq> k \<and> size (Dir es) \<le> n"
  then have absent: "lookup fs (parent @ [k]) = None" by (simp add: existsSync_def)
  from a obtain des where parent: "lookup fs parent = Some (Dir des)"
    using lookup_prefix_dir [of fs parent "[b]" "Dir es"] by auto
  from a have par: "(parent @ [b]) \<parallel> (parent @ [k])" by (simp add: siblings_parallel)
  from a copyDirectory_correct [OF _ _ _ par absent parent, of es n]
  obtain fs' where run: "copyDirectory n fs (parent @ [b]) (parent @ [k]) = Some (fs', None)"
    and cp: "copied fs fs' (parent @ [b]) (parent @ [k])" by auto
  from cp have "entryAt fs' ((parent @ [k]) @ []) = entryAt fs ((parent @ [b]) @ [])"
    by (simp only: copied_def)
  with a have "existsSync fs' (parent @ [k])" by (auto simp: entryAt_def existsSync_def)
  then have "createBackup n fs' (parent @ [b]) (parent @ [k]) = Some (fs', None)"
    by (simp add: createBackup_def)
  moreover from run a have "createBackup n fs (parent @ [b]) (parent @ [k]) = Some (fs', None)"
    by (simp add: createBackup_def)
  moreover from cp have "\<forall>q. entryAt fs' ((parent @ [k]) @ q) = entryAt fs ((parent @ [b]) @ q)"
    by (simp add: copied_def)
  moreover from cp have "\<forall>p. \<not> prefix (parent @ [k]) p \<longrightarrow> entryAt fs' p = entryAt fs p"
    using grafted_elsewhere by (auto simp: copied_def)
  ultimately show "\<exists>fs'. createBackup n fs (parent @ [b]) (parent @ [k]) = Some (fs', None)
         \<and> (\<forall>q. entryAt fs' ((parent @ [k]) @ q) = entryAt fs ((parent @ [b]) @ q))
         \<and> (\<forall>p. \<not> prefix (parent @ [k]) p \<longrightarrow> entryAt fs' p = entryAt fs p)
         \<and> createBackup n fs' (parent @ [b]) (parent @ [k]) = Some (fs', None)" by blast
qed

theorem createBackup_copies_or_skips_witness:
  "\<not> existsSync
       (Dir [(''content'', Dir [(''i18n'', Dir [(''en'', Dir [(''audio'',
                Dir [(''a.mp3'', File ''RIFF'')]), (''t.json'', File ''{}'')])])])])
       [''content'', ''i18n-backup'']
   \<and> lookup
       (Dir [(''content'', Dir [(''i18n'', Dir [(''en'', Dir [(''audio'',
                Dir [(''a.mp3'', File ''RIFF'')]), (''t.json'', File ''{}'')])])])])
       [''content'', ''i18n'']
     = Some (Dir [(''en'', Dir [(''audio'', Dir [(''a.mp3'', File ''RIFF'')]),
                                (''t.json'', File ''{}'')])])
   \<and> wellFormed (Dir [(''en'', Dir [(''audio'', Dir [(''a.mp3'', File ''RIFF'')]),
                                (''t.json'', File ''{}'')])])
   \<and> size (Dir [(''en'', Dir [(''audio'', Dir [(''a.mp3'', File ''RIFF'')]),
                                (''t.json'', File ''{}'')])]) \<le> 12
   \<and> createBackup 12
       (Dir [(''content'', Dir [(''i18n'', Dir [(''en'', Dir [(''audio'',
                Dir [(''a.mp3'', File ''RIFF'')]), (''t.json'', File ''{}'')])])])])
       [''content'', ''i18n''] [''content'', ''i18n-backup'']
     = Some (Dir [(''content'', Dir [(''i18n'', Dir [(''en'', Dir [(''audio'',
                Dir [(''a.mp3'', File ''RIFF'')]), (''t.json'', File ''{}'')])]),
             (''i18n-backup'', Dir [(''en'', Dir [(''audio'',
                Dir [(''a.mp3'', File ''RIFF'')]), (''t.json'', File ''{}'')])])])], None)
   \<and> createBackup 12
       (Dir [(''content'', Dir [(''i18n'', Dir [(''en'', Dir [(''audio'',
                Dir [(''a.mp3'', File ''RIFF'')]), (''t.json'', File ''{}'')])]),
             (''i18n-backup'', Dir [(''en'', Dir [(''audio'',
                Dir [(''a.mp3'', File ''RIFF'')]), (''t.json'', File ''{}'')])])])])
       [''content'', ''i18n''] [''content'', ''i18n-backup'']
     = Some (Dir [(''content'', Dir [(''i18n'', Dir [(''en'', Dir [(''audio'',
                Dir [(''a.mp3'', File ''RIFF'')]), (''t.json'', File ''{}'')])]),
             (''i18n-backup'', Dir [(''en'', Dir [(''audio'',
                Dir [(''a.mp3'', File ''RIFF'')]), (''t.json'', File ''{}'')])])])], None)"
  using createBackup_copies_or_skips
    [of "Dir [(''content'', Dir [(''i18n'', Dir [(''en'', Dir [(''audio'',
                Dir [(''a.mp3'', File ''RIFF'')]), (''t.json'', File ''{}'')])])])]"
        "[''content'']" "''i18n-backup''" 12 "''i18n''"
        "[(''en'', Dir [(''audio'', Dir [(''a.mp3'', File ''RIFF'')]),
                        (''t.json'', File ''{}'')])]"]
  by (simp add: createBackup_def existsSync_def mkdirSync_def readdirSync_def statSync_def
      copyFileSync_def writeFileSync_def eval_nat_numeral)

section \<open>Properties of a compression run\<close>

text \<open>
  The mp3 script removes the output of a failed encode (unless a directory stands at the
  output path).
\<close>

lemma compressFile_mp3_cleans_up:
  assumes "statSync (files c) (sourceAudioDir @ [filename]) = Inr original"
    and "enc (files c) (sourceAudioDir @ [filename]) (targetAudioDir @ [filename]) = (fs1, Closed code errorOutput)"
    and "code \<noteq> 0"
    and "\<forall>es. lookup fs1 (targetAudioDir @ [filename]) \<noteq> Some (Dir es)"
  shows "\<exists>c'. compressFile_mp3 enc c sourceAudioDir targetAudioDir filename
              = (c', Threw (FFmpegFailed code errorOutput))
          \<and> \<not> existsSync (files c') (targetAudioDir @ [filename])"
proof (cases "lookup fs1 (targetAudioDir @ [filename])")
  case None
  with assms show ?thesis by (simp add: compressFile_mp3_def existsSync_def)
next
  case (Some out)
  with assms(4) obtain partial where "lookup fs1 (targetAudioDir @ [filename]) = Some (File partial)"
    by (cases out) auto
  from unlinkSync_file [OF this] obtain fs2
    where "unlinkSync fs1 (targetAudioDir @ [filename]) = Inr fs2"
      and "\<not> existsSync fs2 (targetAudioDir @ [filename])" by auto
  with assms Some show ?thesis by (simp add: compressFile_mp3_def existsSync_def)
qed

text \<open>
  In both scripts a rejected conversion adds one entry for the file to \<open>errors\<close> and the
  loop goes on with the remaining files.
\<close>

lemma failure_recorded:
  "compressFile enc c audioDir name = (c', Threw e) \<Longrightarrow>
   compressEach enc c audioDir (name # rest)
     = compressEach enc (c'\<lparr>errors := errors c' @ [(name, e)]\<rparr>) audioDir rest"
  by simp

lemma failure_recorded_mp3:
  "compressFile_mp3 enc c src tgt name = (c', Threw e) \<Longrightarrow>
   compressEach_mp3 enc c src tgt (name # rest)
     = compressEach_mp3 enc (c'\<lparr>errors := errors c' @ [(name, e)]\<rparr>) src tgt rest"
  by simp

text \<open>
  Claim C4 in compress-audio.js: the encoder writes part of \<open>a.ogg\<close> and exits with code 1.
  One error entry for \<open>a.mp3\<close> is recorded and the loop ends normally, but \<open>a.ogg\<close> is still
  there.
\<close>

theorem failed_encode_leaves_output:
  "compressLanguageFiles
     (\<lambda>fs inputPath outputPath.
        case writeFileSync fs outputPath ''Og'' of
          Inr fs' \<Rightarrow> (fs', Closed 1 ''Conversion failed'')
        | Inl e \<Rightarrow> (fs, Closed 1 ''Conversion failed''))
     \<lparr>files = Dir [(''content'', Dir [(''i18n'', Dir [(''en'', Dir [(''audio'',
                Dir [(''a.mp3'', File ''RIFF'')])])])])],
      totalFiles = 1, processedFiles = 0, originalSize = 4, compressedSize = 0, errors = []\<rparr>
     [''content''] ''en''
   = (\<lparr>files = Dir [(''content'', Dir [(''i18n'', Dir [(''en'', Dir [(''audio'',
                Dir [(''a.mp3'', File ''RIFF''), (''a.ogg'', File ''Og'')])])])])],
      totalFiles = 1, processedFiles = 0, originalSize = 4, compressedSize = 0,
      errors = [(''a.mp3'', FFmpegFailed 1 ''Conversion failed'')]\<rparr>, Done)"
  by (simp add: compressLanguageFiles_def compressFile_def baseDir_def existsSync_def
      readdirSync_def statSync_def writeFileSync_def endsWith_def replace_def startsWith_def)


















text \<open>
  The backup comes first: when it throws, the run is abandoned and the encoder is never
  called.
\<close>

lemma backup_failure_stops_run:
  "createBackup n (files c) (baseDir content) (backupDir content) = Some (fs1, Some e) \<Longrightarrow>
   compressAllFiles n enc c content = Some (c\<lparr>files := fs1\<rparr>, Threw e)"
  by (simp add: compressAllFiles_def)

lemma backup_failure_stops_run_mp3:
  "createBackup n (files c) (baseDir content) (backupDir_mp3 content) = Some (fs1, Some e) \<Longrightarrow>
   compressAllFiles_mp3 n enc c content = Some (c\<lparr>files := fs1\<rparr>, Threw e)"
  by (simp add: compressAllFiles_mp3_def)

text \<open>
  compress-audio-mp3.js reads the backup directory before \<open>createBackup\<close> is reached: without
  a backup the run is rejected there and nothing is copied or compressed.
\<close>

lemma init_mp3_needs_backup:
  assumes "checkFFmpeg probe" and "\<not> existsSync (files c) (backupDir_mp3 content)"
  shows "init_mp3 n probe enc c content
           = Some (c, Threw (FsError ''scandir'' (backupDir_mp3 content)))"
  using assms
  by (simp add: init_mp3_def analyzeCurrentFiles_def languagesOf_def readdirSync_def
      existsSync_def)

text \<open>
  An exception in the \<open>close\<close> listener ends the process with status 1 although \<open>ffmpeg\<close>
  was found: here a directory stands at the output path of compress-audio-mp3.js, the
  encoder fails, and \<open>unlinkSync\<close> throws on the directory.
\<close>

lemma cleanup_of_directory_is_uncaught:
  "init_mp3 1 (Closed 0 [])
     (\<lambda>fs inputPath outputPath. (fs, Closed 1 ''Is a directory''))
     \<lparr>files = Dir [(''content'', Dir [
          (''i18n'', Dir [(''en'', Dir [(''audio'', Dir [(''a.mp3'', Dir [])])])]),
          (''i18n-backup-mp3'', Dir [(''en'', Dir [(''audio'', Dir [(''a.mp3'', File ''RIFF'')])])])])],
      totalFiles = 0, processedFiles = 0, originalSize = 0, compressedSize = 0, errors = []\<rparr>
     [''content'']
   = Some (\<lparr>files = Dir [(''content'', Dir [
          (''i18n'', Dir [(''en'', Dir [(''audio'', Dir [(''a.mp3'', Dir [])])])]),
          (''i18n-backup-mp3'', Dir [(''en'', Dir [(''audio'', Dir [(''a.mp3'', File ''RIFF'')])])])])],
      totalFiles = 1, processedFiles = 0, originalSize = 4, compressedSize = 0, errors = []\<rparr>,
      Uncaught (FsError ''unlink'' [''content'', ''i18n'', ''en'', ''audio'', ''a.mp3'']))"
  by (simp add: init_mp3_def checkFFmpeg_def analyzeCurrentFiles_def languagesOf_def
      compressAllFiles_mp3_def compressLanguageFiles_mp3_def compressFile_mp3_def
      createBackup_def baseDir_def backupDir_mp3_def existsSync_def readdirSync_def
      statSync_def unlinkSync_def endsWith_def)






end
